theory Spec2Isabelle
  imports Main "HOL-Library.Word"
begin

unbundle bit_operations_syntax

text \<open>
  A model of the proof-of-work engine of SuChain (package \<^verbatim>\<open>ethash\<close>, files
  \<^verbatim>\<open>algorithm.go\<close> and the engine's lifecycle code): the seed derivation and the
  hashing stand-in as pure functions, the engine's constructors and operations as
  functions on a world that holds the heap of engines and of remote sealers. The
  definitions come first, the properties after them.
\<close>

section \<open>Bytes, slices and run-time panics\<close>

text \<open>
  A Go \<^verbatim>\<open>[]byte\<close> is a list of 8-bit words; \<^verbatim>\<open>uint64\<close> and (on a 64-bit
  platform) \<^verbatim>\<open>int\<close> are 64-bit words. Every run-time panic the modelled code
  can raise is a value of \<open>panic\<close>; a function that can panic returns
  \<open>panic + 'a\<close>, with \<open>Inl\<close> for the panic. \<open>BlockedForever\<close> stands for a
  channel operation that never completes.
\<close>

type_synonym byte = "8 word"
type_synonym uint64 = "64 word"

datatype panic =
    IndexOutOfRange
  | SliceBoundsOutOfRange
  | NilDereference
  | NoReadMethod
  | CloseOfNilChannel
  | CloseOfClosedChannel
  | BlockedForever

section \<open>algorithm.go: the repetitive hasher and the seed\<close>

definition epochLength :: nat where
  "epochLength = 30000"

text \<open>
  The \<^verbatim>\<open>hash.Hash\<close> handed to \<^verbatim>\<open>makeHasher\<close> comes from the external sha3
  package, so it is a parameter: \<open>hasRead\<close> says whether the value also implements
  \<^verbatim>\<open>Read\<close> (the type assertion to \<^verbatim>\<open>readerHash\<close>), \<open>Size\<close> is its output
  length, and \<open>squeeze data k\<close> is the \<open>k\<close> bytes that \<^verbatim>\<open>Read\<close> delivers after
  \<^verbatim>\<open>Reset\<close> and \<^verbatim>\<open>Write(data)\<close>.
\<close>

record Hash =
  hasRead :: bool
  Size :: nat
  squeeze :: "byte list \<Rightarrow> nat \<Rightarrow> byte list"

type_synonym hasher = "byte list \<Rightarrow> byte list \<Rightarrow> panic + byte list"

text \<open>
  \<^verbatim>\<open>makeHasher\<close> panics when the hash has no \<^verbatim>\<open>Read\<close> method. The hasher it
  returns reads into \<^verbatim>\<open>dest[:outputLen]\<close> (a slice expression that panics when
  \<open>outputLen\<close> exceeds the destination, whose capacity is taken to be its length)
  and returns the destination buffer as it is afterwards: the bytes read, followed by
  the bytes of the destination they did not overwrite. The data is absorbed by
  \<^verbatim>\<open>Write\<close> before \<^verbatim>\<open>Read\<close> touches the destination, so the call
  \<^verbatim>\<open>keccak256(seed, seed)\<close> on aliased buffers is \<open>hasher seed seed\<close>.
\<close>

definition makeHasher :: "Hash \<Rightarrow> panic + hasher" where
  "makeHasher h =
     (if \<not> hasRead h then Inl NoReadMethod
      else let outputLen = Size h in
        Inr (\<lambda>dest data.
          if outputLen \<le> length dest
          then let out = take outputLen (squeeze h data outputLen)
               in Inr (out @ drop (length out) dest)
          else Inl SliceBoundsOutOfRange))"

text \<open>The loop \<^verbatim>\<open>for i := 0; i < n; i++ { keccak256(seed, seed) }\<close>.\<close>

function seedHash_loop :: "hasher \<Rightarrow> nat \<Rightarrow> nat \<Rightarrow> byte list \<Rightarrow> panic + byte list" where
  "seedHash_loop keccak256 i n seed =
     (if i < n then
        (case keccak256 seed seed of
           Inl e \<Rightarrow> Inl e
         | Inr seed' \<Rightarrow> seedHash_loop keccak256 (Suc i) n seed')
      else Inr seed)"
  by pat_completeness auto
termination
  by (relation "measure (\<lambda>(k, i, n, s). n - i)") auto

declare seedHash_loop.simps [simp del]

text \<open>
  \<^verbatim>\<open>seedHash\<close>; the parameter \<open>legacyKeccak256\<close> stands for
  \<^verbatim>\<open>sha3.NewLegacyKeccak256()\<close>. The quotient \<open>block / epochLength\<close> is below
  \<open>2^63\<close>, so its conversion to \<^verbatim>\<open>int\<close> does not change it.
\<close>

definition seedHash :: "Hash \<Rightarrow> uint64 \<Rightarrow> panic + byte list" where
  "seedHash legacyKeccak256 block =
     (let seed = replicate 32 (0 :: byte) in
      if unat block < epochLength then Inr seed
      else
        (case makeHasher legacyKeccak256 of
           Inl e \<Rightarrow> Inl e
         | Inr keccak256 \<Rightarrow> seedHash_loop keccak256 0 (unat block div epochLength) seed))"

definition SeedHash :: "Hash \<Rightarrow> uint64 \<Rightarrow> panic + byte list" where
  "SeedHash legacyKeccak256 block = seedHash legacyKeccak256 block"

section \<open>algorithm.go: hashimoto\<close>

text \<open>
  The loop of \<^verbatim>\<open>hashimoto\<close>: at index \<open>i\<close> it reads \<^verbatim>\<open>hash[i]\<close> (in range by
  the loop condition) and \<^verbatim>\<open>nonceHash[i]\<close> (a panic when \<open>i\<close> is not below
  \<^verbatim>\<open>len(nonceHash)\<close>) and stores their XOR in \<^verbatim>\<open>resultBytes[i]\<close>.
\<close>

function hashimoto_loop :: "nat \<Rightarrow> byte list \<Rightarrow> byte list \<Rightarrow> byte list \<Rightarrow> panic + byte list" where
  "hashimoto_loop i hash nonceHash resultBytes =
     (if i < length hash then
        (if i < length nonceHash
         then hashimoto_loop (Suc i) hash nonceHash
                (resultBytes[i := (hash ! i) XOR (nonceHash ! i)])
         else Inl IndexOutOfRange)
      else Inr resultBytes)"
  by pat_completeness auto
termination
  by (relation "measure (\<lambda>(i, hash, n, r). length hash - i)") auto

declare hashimoto_loop.simps [simp del]

definition hashimoto :: "byte list \<Rightarrow> byte list \<Rightarrow> panic + byte list" where
  "hashimoto hash nonceHash =
     hashimoto_loop 0 hash nonceHash (replicate (length hash) 0)"

definition hashimotoLight :: "byte list \<Rightarrow> byte list \<Rightarrow> panic + byte list" where
  "hashimotoLight hash nonce = hashimoto hash nonce"

definition hashimotoFull :: "byte list \<Rightarrow> byte list \<Rightarrow> panic + byte list" where
  "hashimotoFull hash nonce = hashimoto hash nonce"

text \<open>
  A stand-in for the external hash, used to run \<open>seedHash\<close> on concrete block
  numbers: it implements \<^verbatim>\<open>Read\<close>, has size 32 and maps its input to the same
  bytes, each incremented by one (cut or zero-padded to the length read).
\<close>

definition incrementHash :: Hash where
  "incrementHash =
     \<lparr>hasRead = True, Size = 32,
      squeeze = (\<lambda>data k. take k (map (\<lambda>x. x + 1) data @ replicate k 0))\<rparr>"

section \<open>The engine: modes, configuration and state\<close>

text \<open>
  \<^verbatim>\<open>Mode\<close> is an unsigned integer type with five named constants, numbered by
  \<^verbatim>\<open>iota\<close> in the order of the \<^verbatim>\<open>const\<close> block; \<open>Mode_uint\<close> gives the number.
  The zero value of the type is therefore \<open>ModeNormal\<close>.
\<close>

datatype Mode = ModeNormal | ModeShared | ModeTest | ModeFake | ModeFullFake

primrec Mode_uint :: "Mode \<Rightarrow> uint64" where
  "Mode_uint ModeNormal = 0"
| "Mode_uint ModeShared = 1"
| "Mode_uint ModeTest = 2"
| "Mode_uint ModeFake = 3"
| "Mode_uint ModeFullFake = 4"

datatype error = ErrInvalidDumpMagic

text \<open>
  A \<^verbatim>\<open>log.Logger\<close> is an interface value of an external package: \<open>None\<close> is the
  nil interface, \<open>RootLogger\<close> is what \<^verbatim>\<open>log.Root()\<close> returns.
\<close>

datatype Logger = RootLogger | CustomLogger nat

record Config =
  PowMode :: Mode
  NotifyFull :: bool
  Log :: "Logger option"

text \<open>The zero value of \<^verbatim>\<open>Config\<close>, which a composite literal leaves in place.\<close>

definition Config_zero :: Config where
  "Config_zero = \<lparr>PowMode = ModeNormal, NotifyFull = False, Log = None\<rparr>"

text \<open>
  Engines and remote sealers live on the heap and are referred to by pointers. A pointer
  is the index of its object in the heap of the world; a field of pointer type is an
  \<open>option\<close>, \<open>None\<close> being nil. Go has no dangling pointers, so every pointer that
  the program holds is below the length of its heap.
\<close>

type_synonym ptr = nat

datatype chan = NilChan | Open | Closed

text \<open>
  The struct \<^verbatim>\<open>Hmhash\<close>. The type \<open>'f\<close> stands for \<^verbatim>\<open>float64\<close>. The meter is
  an interface value of the external metrics package: \<open>None\<close> is the nil interface
  (the zero value of the field), \<open>Some v\<close> a meter whose \<^verbatim>\<open>Rate1()\<close> currently
  reports \<open>v\<close>. \<^verbatim>\<open>threads\<close> is a Go \<^verbatim>\<open>int\<close>, \<^verbatim>\<open>fakeDelay\<close> a
  \<^verbatim>\<open>time.Duration\<close>. \<open>closeOnce\<close> is the done flag of the \<^verbatim>\<open>sync.Once\<close>.
  The mutex \<^verbatim>\<open>lock\<close> has no state between calls of a sequential run and is left
  out; a call that would lock it twice never returns (see \<open>SetThreads\<close>).
\<close>

record 'f Hmhash =
  config :: Config
  rand :: "nat option"
  threads :: "64 word"
  update :: chan
  hashrate :: "'f option"
  remote :: "ptr option"
  shared :: "ptr option"
  fakeFail :: uint64
  fakeDelay :: "64 word"
  closeOnce :: bool

text \<open>
  Modelled from the spec: the struct \<^verbatim>\<open>remoteSealer\<close> and the function
  \<^verbatim>\<open>startRemoteSealer\<close> are not part of the source at hand. The handle holds what
  the coordinator was started with (the engine it serves, the notify endpoint list and
  the submit-verification-skip flag), the exit handshake (a close signal input
  \<open>requestExit\<close> and an exit-confirmed signal output \<open>exitCh\<close>), and the
  aggregate remote hashrate it answers a fetch request with.
\<close>

record remoteSealer =
  engine :: ptr
  notifyURLs :: "string list"
  noverify :: bool
  requestExit :: chan
  exitCh :: chan
  remoteRate :: uint64

text \<open>What the engine does to the channels of its remote sealer, in order.\<close>

datatype event = Started ptr | ClosedRequestExit ptr | ExitConfirmed ptr

text \<open>
  The world: both heaps, the package variable \<^verbatim>\<open>sharedHmhash\<close> and the trace of
  events so far.
\<close>

record 'f world =
  engines :: "'f Hmhash list"
  sealers :: "remoteSealer list"
  sharedHmhash :: "ptr option"
  trace :: "event list"

definition world0 :: "'f world" where
  "world0 = \<lparr>engines = [], sealers = [], sharedHmhash = None, trace = []\<rparr>"

text \<open>The zero value of the struct, which the composite literals below start from.\<close>

definition Hmhash_zero :: "'f Hmhash" where
  "Hmhash_zero =
     \<lparr>config = Config_zero, rand = None, threads = 0, update = NilChan, hashrate = None,
      remote = None, shared = None, fakeFail = 0, fakeDelay = 0, closeOnce = False\<rparr>"

text \<open>\<^verbatim>\<open>&Hmhash{...}\<close>: the new object goes to the end of the heap.\<close>

definition alloc :: "'f world \<Rightarrow> 'f Hmhash \<Rightarrow> ptr \<times> 'f world" where
  "alloc w e = (length (engines w), w\<lparr>engines := engines w @ [e]\<rparr>)"

section \<open>The remote sealer's side\<close>

text \<open>
  Modelled from the spec: \<^verbatim>\<open>startRemoteSealer\<close> is missing from the source. It
  starts the coordinator for the engine, passing it the notify endpoint list and the
  submit-verification-skip flag, and returns its handle: a new sealer, both exit
  channels open, no remote hashrate reported yet.
\<close>

definition startRemoteSealer :: "'f world \<Rightarrow> ptr \<Rightarrow> string list \<Rightarrow> bool \<Rightarrow> ptr \<times> 'f world" where
  "startRemoteSealer w hmhash notify nv =
     (let r = length (sealers w);
          s = \<lparr>engine = hmhash, notifyURLs = notify, noverify = nv,
               requestExit = Open, exitCh = Open, remoteRate = 0\<rparr>
      in (r, w\<lparr>sealers := sealers w @ [s], trace := trace w @ [Started r]\<rparr>))"

text \<open>
  Modelled from the spec: the coordinator's loop is missing from the source. On a fetch
  request a running coordinator answers with its aggregate remote hashrate; once it has
  exited (its exit signal is observable) nobody receives the request, and the only
  ready case of the caller's \<^verbatim>\<open>select\<close> is the exit channel: \<open>None\<close>.
\<close>

definition fetchRate :: "remoteSealer \<Rightarrow> uint64 option" where
  "fetchRate s = (if exitCh s = Closed then None else Some (remoteRate s))"

text \<open>
  Modelled from the spec: the clean-exit handshake. A coordinator whose close signal
  has been given unwinds and confirms by closing its exit channel.
\<close>

definition sealer_exit :: "remoteSealer \<Rightarrow> remoteSealer" where
  "sealer_exit s = (if requestExit s = Closed then s\<lparr>exitCh := Closed\<rparr> else s)"

section \<open>The engine: constructors\<close>

text \<open>
  \<^verbatim>\<open>New\<close>. The parameter \<open>newMeter\<close> is the reading of the meter that the
  external \<^verbatim>\<open>metrics.NewMeterForced()\<close> returns.
\<close>

definition New :: "'f \<Rightarrow> 'f world \<Rightarrow> Config \<Rightarrow> string list \<Rightarrow> bool \<Rightarrow> ptr \<times> 'f world" where
  "New newMeter w cfg notify nv =
     (let cfg = (if Log cfg = None then cfg\<lparr>Log := Some RootLogger\<rparr> else cfg);
          (hmhash, w) = alloc w
             (Hmhash_zero\<lparr>config := cfg, update := Open, hashrate := Some newMeter\<rparr>);
          w = (if PowMode cfg = ModeShared
               then w\<lparr>engines := (engines w)
                      [hmhash := (engines w ! hmhash)\<lparr>shared := sharedHmhash w\<rparr>]\<rparr>
               else w);
          (r, w) = startRemoteSealer w hmhash notify nv
      in (hmhash,
          w\<lparr>engines := (engines w)[hmhash := (engines w ! hmhash)\<lparr>remote := Some r\<rparr>]\<rparr>))"

text \<open>The package's \<^verbatim>\<open>init\<close>: the shared instance, in mode Normal, with nil notify list.\<close>

definition init :: "'f \<Rightarrow> 'f world \<Rightarrow> 'f world" where
  "init newMeter w =
     (let sharedConfig = Config_zero\<lparr>PowMode := ModeNormal\<rparr>;
          (p, w) = New newMeter w sharedConfig [] False
      in w\<lparr>sharedHmhash := Some p\<rparr>)"

definition NewTester :: "'f \<Rightarrow> 'f world \<Rightarrow> string list \<Rightarrow> bool \<Rightarrow> ptr \<times> 'f world" where
  "NewTester newMeter w notify nv =
     New newMeter w (Config_zero\<lparr>PowMode := ModeTest\<rparr>) notify nv"

definition NewFaker :: "'f world \<Rightarrow> ptr \<times> 'f world" where
  "NewFaker w =
     alloc w (Hmhash_zero\<lparr>config := Config_zero\<lparr>PowMode := ModeFake, Log := Some RootLogger\<rparr>\<rparr>)"

definition NewFakeFailer :: "'f world \<Rightarrow> uint64 \<Rightarrow> ptr \<times> 'f world" where
  "NewFakeFailer w fail =
     alloc w (Hmhash_zero\<lparr>config := Config_zero\<lparr>PowMode := ModeFake, Log := Some RootLogger\<rparr>,
                          fakeFail := fail\<rparr>)"

definition NewFakeDelayer :: "'f world \<Rightarrow> 64 word \<Rightarrow> ptr \<times> 'f world" where
  "NewFakeDelayer w delay =
     alloc w (Hmhash_zero\<lparr>config := Config_zero\<lparr>PowMode := ModeFake, Log := Some RootLogger\<rparr>,
                          fakeDelay := delay\<rparr>)"

definition NewFullFaker :: "'f world \<Rightarrow> ptr \<times> 'f world" where
  "NewFullFaker w =
     alloc w (Hmhash_zero\<lparr>config := Config_zero\<lparr>PowMode := ModeFullFake, Log := Some RootLogger\<rparr>\<rparr>)"

definition NewShared :: "'f world \<Rightarrow> ptr \<times> 'f world" where
  "NewShared w = alloc w (Hmhash_zero\<lparr>shared := sharedHmhash w\<rparr>)"

section \<open>The engine: operations\<close>

text \<open>\<^verbatim>\<open>close(c)\<close> panics on a nil channel and on a channel that is closed already.\<close>

definition close_chan :: "chan \<Rightarrow> panic + chan" where
  "close_chan c =
     (case c of NilChan \<Rightarrow> Inl CloseOfNilChannel
              | Closed \<Rightarrow> Inl CloseOfClosedChannel
              | Open \<Rightarrow> Inr Closed)"

text \<open>
  \<^verbatim>\<open>StopRemoteSealer\<close>. The function given to \<^verbatim>\<open>closeOnce.Do\<close> runs when the
  done flag of the \<^verbatim>\<open>sync.Once\<close> is not set, and the flag is set from then on. The
  function returns at once when \<^verbatim>\<open>remote\<close> is nil; otherwise it closes
  \<^verbatim>\<open>requestExit\<close>, upon which the coordinator exits (\<open>sealer_exit\<close>), and
  receives from \<^verbatim>\<open>exitCh\<close>, which returns when that channel is closed and blocks
  forever when it never is. The result is the new world and the returned \<^verbatim>\<open>error\<close>,
  \<open>None\<close> being nil.
\<close>

definition StopRemoteSealer :: "'f world \<Rightarrow> ptr \<Rightarrow> panic + ('f world \<times> error option)" where
  "StopRemoteSealer w hmhash =
     (let e = engines w ! hmhash in
      if closeOnce e then Inr (w, None)
      else
        let w = w\<lparr>engines := (engines w)[hmhash := e\<lparr>closeOnce := True\<rparr>]\<rparr> in
        (case remote e of
           None \<Rightarrow> Inr (w, None)
         | Some r \<Rightarrow>
             (case close_chan (requestExit (sealers w ! r)) of
                Inl p \<Rightarrow> Inl p
              | Inr c \<Rightarrow>
                  let s = sealer_exit ((sealers w ! r)\<lparr>requestExit := c\<rparr>);
                      w = w\<lparr>sealers := (sealers w)[r := s],
                            trace := trace w @ [ClosedRequestExit r]\<rparr>
                  in if exitCh s = Closed
                     then Inr (w\<lparr>trace := trace w @ [ExitConfirmed r]\<rparr>, None)
                     else Inl BlockedForever)))"

definition Close :: "'f world \<Rightarrow> ptr \<Rightarrow> panic + ('f world \<times> error option)" where
  "Close w hmhash = StopRemoteSealer w hmhash"

text \<open>\<open>Close\<close> invoked \<open>k\<close> times in a row, with the errors returned, in order.\<close>

fun Close_times :: "nat \<Rightarrow> 'f world \<Rightarrow> ptr \<Rightarrow> panic + ('f world \<times> error option list)" where
  "Close_times 0 w hmhash = Inr (w, [])"
| "Close_times (Suc k) w hmhash =
     (case Close w hmhash of
        Inl p \<Rightarrow> Inl p
      | Inr (w', err) \<Rightarrow>
          (case Close_times k w' hmhash of
             Inl p \<Rightarrow> Inl p
           | Inr (w'', errs) \<Rightarrow> Inr (w'', err # errs)))"

definition Threads :: "'f world \<Rightarrow> ptr \<Rightarrow> 64 word" where
  "Threads w hmhash = threads (engines w ! hmhash)"

text \<open>
  \<^verbatim>\<open>SetThreads\<close> calls itself on the shared engine while it holds its own lock, so
  on a heap where the \<^verbatim>\<open>shared\<close> pointers form a cycle it never returns: it is a
  partial function, \<open>None\<close> being no return. The non-blocking send on
  \<^verbatim>\<open>update\<close> hands a token to a waiting mining loop or is dropped (always dropped
  on a nil channel); neither changes the engine.
\<close>

partial_function (option) SetThreads :: "'f world \<Rightarrow> ptr \<Rightarrow> 64 word \<Rightarrow> 'f world option" where
  "SetThreads w hmhash n =
     (case shared (engines w ! hmhash) of
        Some s \<Rightarrow> SetThreads w s n
      | None \<Rightarrow>
          Some (w\<lparr>engines := (engines w)[hmhash := (engines w ! hmhash)\<lparr>threads := n\<rparr>]\<rparr>))"

text \<open>\<^verbatim>\<open>m.Rate1()\<close> on the meter interface: a nil interface panics.\<close>

definition Rate1 :: "'f option \<Rightarrow> panic + 'f" where
  "Rate1 m = (case m of None \<Rightarrow> Inl NilDereference | Some v \<Rightarrow> Inr v)"

text \<open>
  \<^verbatim>\<open>Hashrate\<close>. The parameters \<open>fadd\<close> and \<open>float64\<close> are the addition of
  \<^verbatim>\<open>float64\<close> and the conversion from \<^verbatim>\<open>uint64\<close>. Entering the
  \<^verbatim>\<open>select\<close> evaluates \<^verbatim>\<open>hmhash.remote.fetchRateCh\<close>, which panics on a nil
  \<^verbatim>\<open>remote\<close>. The request is then either taken by the coordinator, which answers
  on \<^verbatim>\<open>res\<close>, or the exit channel is ready (\<open>fetchRate\<close>).
\<close>

definition Hashrate :: "('f \<Rightarrow> 'f \<Rightarrow> 'f) \<Rightarrow> (uint64 \<Rightarrow> 'f) \<Rightarrow> 'f world \<Rightarrow> ptr \<Rightarrow> panic + 'f" where
  "Hashrate fadd float64 w hmhash =
     (let e = engines w ! hmhash in
      if PowMode (config e) \<noteq> ModeNormal \<and> PowMode (config e) \<noteq> ModeTest
      then Rate1 (hashrate e)
      else
        (case remote e of
           None \<Rightarrow> Inl NilDereference
         | Some r \<Rightarrow>
             (case fetchRate (sealers w ! r) of
                None \<Rightarrow> Rate1 (hashrate e)
              | Some res \<Rightarrow>
                  (case Rate1 (hashrate e) of
                     Inl p \<Rightarrow> Inl p
                   | Inr local \<Rightarrow> Inr (fadd local (float64 res))))))"

section \<open>Well-formed worlds\<close>

text \<open>
  What every world that the constructors and operations build satisfies. An engine's
  remote sealer is on the heap and serves that engine (so no two engines have the same
  one); its \<^verbatim>\<open>requestExit\<close> channel is closed exactly when the engine's
  \<^verbatim>\<open>closeOnce\<close> is done, and the trace has that many closings of it. The trace
  closes sealers of the heap only.
\<close>

definition sealer_wf :: "'f world \<Rightarrow> bool" where
  "sealer_wf w \<longleftrightarrow>
     (\<forall>p < length (engines w). \<forall>r. remote (engines w ! p) = Some r \<longrightarrow>
        r < length (sealers w) \<and> engine (sealers w ! r) = p \<and>
        requestExit (sealers w ! r) = (if closeOnce (engines w ! p) then Closed else Open) \<and>
        count_list (trace w) (ClosedRequestExit r) =
          (if closeOnce (engines w ! p) then 1 else 0)) \<and>
     (\<forall>r. ClosedRequestExit r \<in> set (trace w) \<longrightarrow> r < length (sealers w))"

text \<open>
  A \<^verbatim>\<open>shared\<close> pointer is the shared instance of the package, which is on the heap
  and has no \<^verbatim>\<open>shared\<close> pointer of its own.
\<close>

definition shared_wf :: "'f world \<Rightarrow> bool" where
  "shared_wf w \<longleftrightarrow>
     (\<forall>p < length (engines w). \<forall>s. shared (engines w ! p) = Some s \<longrightarrow>
        sharedHmhash w = Some s) \<and>
     (\<forall>s. sharedHmhash w = Some s \<longrightarrow>
        s < length (engines w) \<and> shared (engines w ! s) = None)"

definition world_wf :: "'f world \<Rightarrow> bool" where
  "world_wf w \<longleftrightarrow> sealer_wf w \<and> shared_wf w"

section \<open>Properties of hashimoto\<close>

lemma hashimoto_loop_ok:
  "i \<le> length hash \<Longrightarrow> length hash \<le> length nonceHash \<Longrightarrow> length r = length hash \<Longrightarrow>
   \<exists>out. hashimoto_loop i hash nonceHash r = Inr out \<and> length out = length hash \<and>
     (\<forall>j < length hash. out ! j = (if j < i then r ! j else (hash ! j) XOR (nonceHash ! j)))"
proof (induction i hash nonceHash r rule: hashimoto_loop.induct)
  case (1 i hash nonceHash r)
  show ?case
  proof (cases "i < length hash")
    case False
    with "1.prems" show ?thesis
      by (subst hashimoto_loop.simps) simp
  next
    case True
    let ?r = "r[i := (hash ! i) XOR (nonceHash ! i)]"
    from True "1.prems" have inb: "i < length nonceHash" by simp
    from "1.IH" [OF True inb] True "1.prems"
    obtain out where out: "hashimoto_loop (Suc i) hash nonceHash ?r = Inr out"
      "length out = length hash"
      "\<forall>j < length hash. out ! j = (if j < Suc i then ?r ! j else (hash ! j) XOR (nonceHash ! j))"
      by auto
    have "\<forall>j < length hash. out ! j = (if j < i then r ! j else (hash ! j) XOR (nonceHash ! j))"
    proof (intro allI impI)
      fix j assume j: "j < length hash"
      show "out ! j = (if j < i then r ! j else (hash ! j) XOR (nonceHash ! j))"
      proof (cases "j = i")
        case True
        with out(3) j "1.prems" show ?thesis by simp
      next
        case False
        with out(3) j show ?thesis by (auto simp: less_Suc_eq)
      qed
    qed
    with out True inb show ?thesis
      by (subst hashimoto_loop.simps) simp
  qed
qed

lemma hashimoto_loop_panics:
  "i \<le> length nonceHash \<Longrightarrow> length nonceHash < length hash \<Longrightarrow>
   hashimoto_loop i hash nonceHash r = Inl IndexOutOfRange"
proof (induction i hash nonceHash r rule: hashimoto_loop.induct)
  case (1 i hash nonceHash r)
  show ?case
  proof (cases "i < length nonceHash")
    case True
    with "1.prems" have "i < length hash" by simp
    with True "1.IH" "1.prems" show ?thesis
      by (subst hashimoto_loop.simps) simp
  next
    case False
    with "1.prems" show ?thesis
      by (subst hashimoto_loop.simps) simp
  qed
qed

lemma hashimoto_ok:
  assumes "length hash \<le> length nonceHash"
  shows "\<exists>out. hashimoto hash nonceHash = Inr out \<and> length out = length hash \<and>
           (\<forall>i < length hash. out ! i = (hash ! i) XOR (nonceHash ! i))"
  using hashimoto_loop_ok [of 0 hash nonceHash "replicate (length hash) 0"] assms
  by (simp add: hashimoto_def)

lemma hashimoto_short_nonce:
  "length nonceHash < length hash \<Longrightarrow> hashimoto hash nonceHash = Inl IndexOutOfRange"
  by (simp add: hashimoto_def hashimoto_loop_panics)

text \<open>
  C3. For every pair of byte slices, \<^verbatim>\<open>hashimotoLight\<close> and \<^verbatim>\<open>hashimotoFull\<close>
  give the same outcome: the same bytes, or the same panic. Both are the one combining
  function \<^verbatim>\<open>hashimoto\<close>.
\<close>

theorem hashimotoLight_eq_hashimotoFull:
  "hashimotoLight h n = hashimotoFull h n \<and> hashimotoLight h n = hashimoto h n"
  by (simp add: hashimotoLight_def hashimotoFull_def)

text \<open>
  C8. When the nonce digest is at least as long as the header digest, \<^verbatim>\<open>hashimoto\<close>
  returns a slice as long as the header digest whose byte at every index \<open>i\<close> below that
  length is \<open>h[i] XOR n[i]\<close>; in closed form, the pointwise XOR of the header digest
  with the nonce digest cut to the header's length.
\<close>

theorem hashimoto_xor:
  assumes "length h \<le> length n"
  shows "\<exists>out. hashimoto h n = Inr out \<and> length out = length h \<and>
           (\<forall>i < length h. out ! i = (h ! i) XOR (n ! i)) \<and>
           out = map2 (XOR) h n"
proof -
  from hashimoto_ok [OF assms] obtain out where out: "hashimoto h n = Inr out"
    "length out = length h" "\<forall>i < length h. out ! i = (h ! i) XOR (n ! i)"
    by blast
  have "out = map2 (XOR) h n"
  proof (rule nth_equalityI)
    show "length out = length (map2 (XOR) h n)"
      using out(2) assms by simp
  next
    fix i assume "i < length out"
    with out(2,3) assms show "out ! i = map2 (XOR) h n ! i"
      by simp
  qed
  with out show ?thesis by blast
qed

theorem hashimoto_xor_witness:
  "length [0xC9, 0x14 :: byte] \<le> length [0x0F, 0xFF, 0x01 :: byte] \<and>
   hashimoto [0xC9, 0x14] [0x0F, 0xFF, 0x01] = Inr [0xC6, 0xEB]"
  using hashimoto_xor [of "[0xC9, 0x14]" "[0x0F, 0xFF, 0x01]"]
  by simp

text \<open>
  C10. \<^verbatim>\<open>hashimoto\<close>, and with it \<^verbatim>\<open>hashimotoLight\<close> and \<^verbatim>\<open>hashimotoFull\<close>,
  reads the nonce digest at every index below the header digest's length: when the nonce
  digest is strictly shorter the call ends in the index-out-of-range panic, and when it
  is at least as long the call returns a value, no panic being reachable.
\<close>

theorem hashimoto_panics_iff_short_nonce:
  "(length n < length h \<longrightarrow>
      hashimoto h n = Inl IndexOutOfRange \<and>
      hashimotoLight h n = Inl IndexOutOfRange \<and>
      hashimotoFull h n = Inl IndexOutOfRange) \<and>
   (length h \<le> length n \<longrightarrow>
      (\<exists>out. hashimoto h n = Inr out \<and> hashimotoLight h n = Inr out \<and>
             hashimotoFull h n = Inr out))"
proof (intro conjI impI)
  assume "length h \<le> length n"
  from hashimoto_ok [OF this] obtain out where "hashimoto h n = Inr out"
    by blast
  then show "\<exists>out. hashimoto h n = Inr out \<and> hashimotoLight h n = Inr out \<and>
                   hashimotoFull h n = Inr out"
    by (simp add: hashimotoLight_def hashimotoFull_def)
qed (simp_all add: hashimotoLight_def hashimotoFull_def hashimoto_short_nonce)

theorem hashimoto_panics_iff_short_nonce_witness:
  "length [0x01 :: byte] < length [0xC9, 0x14 :: byte] \<and>
   hashimoto [0xC9, 0x14] [0x01] = Inl IndexOutOfRange \<and>
   hashimotoLight [0xC9, 0x14] [0x01] = Inl IndexOutOfRange \<and>
   hashimotoFull [0xC9, 0x14] [0x01] = Inl IndexOutOfRange \<and>
   length [0xC9, 0x14 :: byte] \<le> length [0x0F, 0xFF :: byte] \<and>
   (\<exists>out. hashimoto [0xC9, 0x14] [0x0F, 0xFF] = Inr out \<and>
          hashimotoLight [0xC9, 0x14] [0x0F, 0xFF] = Inr out \<and>
          hashimotoFull [0xC9, 0x14] [0x0F, 0xFF] = Inr out)"
  using hashimoto_panics_iff_short_nonce [of "[0x01]" "[0xC9, 0x14]"]
    hashimoto_panics_iff_short_nonce [of "[0x0F, 0xFF]" "[0xC9, 0x14]"]
  by simp

section \<open>Properties of the seed\<close>

lemma seedHash_loop_funpow:
  "\<forall>s. length s = 32 \<longrightarrow> keccak256 s s = Inr (f s) \<Longrightarrow>
   \<forall>s. length s = 32 \<longrightarrow> length (f s) = 32 \<Longrightarrow>
   length seed = 32 \<Longrightarrow> i \<le> n \<Longrightarrow>
   seedHash_loop keccak256 i n seed = Inr ((f ^^ (n - i)) seed)"
proof (induction keccak256 i n seed rule: seedHash_loop.induct)
  case (1 keccak256 i n seed)
  show ?case
  proof (cases "i < n")
    case False
    with "1.prems" show ?thesis
      by (subst seedHash_loop.simps) simp
  next
    case True
    have step: "keccak256 seed seed = Inr (f seed)"
      using "1.prems"(1,3) by simp
    have len: "length (f seed) = 32"
      using "1.prems"(2,3) by simp
    have "seedHash_loop keccak256 (Suc i) n (f seed) = Inr ((f ^^ (n - Suc i)) (f seed))"
      using "1.IH" [OF True step "1.prems"(1,2) len] True by simp
    moreover have "(f ^^ (n - Suc i)) (f seed) = (f ^^ (n - i)) seed"
    proof -
      from True have "n - i = Suc (n - Suc i)" by simp
      then show ?thesis by (simp only: funpow_Suc_right o_apply)
    qed
    ultimately show ?thesis
      using True step by (subst seedHash_loop.simps) simp
  qed
qed

lemma seedHash_first_epoch:
  "unat block < 30000 \<Longrightarrow> seedHash h block = Inr (replicate 32 0)"
  by (simp add: seedHash_def epochLength_def Let_def)

lemma seedHash_epoch_only:
  assumes "unat b div 30000 = unat b' div 30000"
  shows "seedHash h b = seedHash h b'"
proof -
  have lt: "(unat b < 30000) = (unat b' < 30000)"
    using assms by (metis div_less div_eq_0_iff zero_neq_numeral)
  show ?thesis
    unfolding seedHash_def epochLength_def assms lt by (rule refl)
qed

lemma seedHash_iterates:
  assumes "hasRead h" "Size h = 32" "\<forall>d. length (squeeze h d 32) = 32"
  shows "seedHash h block =
         Inr (((\<lambda>s. squeeze h s 32) ^^ (unat block div 30000)) (replicate 32 0))"
proof (cases "unat block < 30000")
  case True
  then show ?thesis by (simp add: seedHash_first_epoch)
next
  case False
  have "seedHash_loop (\<lambda>dest data.
           if 32 \<le> length dest
           then let out = take 32 (squeeze h data 32) in Inr (out @ drop (length out) dest)
           else Inl SliceBoundsOutOfRange) 0 (unat block div 30000) (replicate 32 0) =
        Inr (((\<lambda>s. squeeze h s 32) ^^ (unat block div 30000 - 0)) (replicate 32 0))"
    by (rule seedHash_loop_funpow) (simp_all add: assms(3))
  with False assms(1,2) show ?thesis
    unfolding seedHash_def epochLength_def by (simp add: makeHasher_def Let_def)
qed

text \<open>
  C4. For every block number below 30000 the seed is 32 zero bytes; two block numbers of
  the same epoch (equal quotients by 30000) have the same seed; and when the hash
  implements \<^verbatim>\<open>Read\<close> and delivers 32 bytes, as Keccak-256 does, the seed is the
  hash applied to its own output \<open>block div 30000\<close> times, starting from 32 zero
  bytes. \<open>seedHash\<close> is a function of the hash and the block number only, so it is
  deterministic.
\<close>

theorem seedHash_epochs:
  "(unat b < 30000 \<longrightarrow> seedHash h b = Inr (replicate 32 0)) \<and>
   (unat b div 30000 = unat b' div 30000 \<longrightarrow> seedHash h b = seedHash h b') \<and>
   (hasRead h \<and> Size h = 32 \<and> (\<forall>d. length (squeeze h d 32) = 32) \<longrightarrow>
      seedHash h b =
        Inr (((\<lambda>s. squeeze h s 32) ^^ (unat b div 30000)) (replicate 32 0)))"
  using seedHash_first_epoch [of b h] seedHash_epoch_only [of b b' h]
    seedHash_iterates [of h b]
  by blast

theorem seedHash_epochs_witness:
  "unat (29999 :: uint64) < 30000 \<and>
   seedHash incrementHash 29999 = Inr (replicate 32 0) \<and>
   unat (60000 :: uint64) div 30000 = unat (89999 :: uint64) div 30000 \<and>
   seedHash incrementHash 60000 = seedHash incrementHash 89999 \<and>
   hasRead incrementHash \<and> Size incrementHash = 32 \<and>
   (\<forall>d. length (squeeze incrementHash d 32) = 32) \<and>
   seedHash incrementHash 60000 = Inr (replicate 32 2)"
proof -
  have len: "\<forall>d. length (squeeze incrementHash d 32) = 32"
    by (auto simp: incrementHash_def)
  have props: "hasRead incrementHash" "Size incrementHash = 32"
    by (simp_all add: incrementHash_def)
  have twice: "((\<lambda>s. squeeze incrementHash s 32) ^^ 2) (replicate 32 0) = replicate 32 2"
    by (simp add: incrementHash_def numeral_2_eq_2)
  note first = seedHash_epochs [of 29999 incrementHash 0]
  note third = seedHash_epochs [of 60000 incrementHash 89999]
  have 1: "seedHash incrementHash 29999 = Inr (replicate 32 0)"
    using first by simp
  have 2: "seedHash incrementHash 60000 = seedHash incrementHash 89999"
    using third by simp
  have two: "unat (60000 :: uint64) div 30000 = 2"
    by simp
  from third len props
  have "seedHash incrementHash 60000 =
        Inr (((\<lambda>s. squeeze incrementHash s 32) ^^ (unat (60000 :: uint64) div 30000))
               (replicate 32 0))"
    by blast
  then have 3: "seedHash incrementHash 60000 = Inr (replicate 32 2)"
    by (simp only: two twice)
  show ?thesis
    using 1 2 3 len props by simp
qed

section \<open>Properties of the constructors\<close>

lemma New_eq:
  "New m w cfg notify nv =
     (length (engines w),
      w\<lparr>engines := engines w @
           [\<lparr>config = (if Log cfg = None then cfg\<lparr>Log := Some RootLogger\<rparr> else cfg),
             rand = None, threads = 0, update = Open, hashrate = Some m,
             remote = Some (length (sealers w)),
             shared = (if PowMode cfg = ModeShared then sharedHmhash w else None),
             fakeFail = 0, fakeDelay = 0, closeOnce = False\<rparr>],
        sealers := sealers w @
           [\<lparr>engine = length (engines w), notifyURLs = notify, noverify = nv,
             requestExit = Open, exitCh = Open, remoteRate = 0\<rparr>],
        trace := trace w @ [Started (length (sealers w))]\<rparr>)"
  by (simp add: New_def alloc_def startRemoteSealer_def Hmhash_zero_def Let_def)

lemma Mode_UNIV: "(UNIV :: Mode set) = {ModeNormal, ModeShared, ModeTest, ModeFake, ModeFullFake}"
proof -
  have "m \<in> {ModeNormal, ModeShared, ModeTest, ModeFake, ModeFullFake}" for m
    by (cases m) simp_all
  then show ?thesis by blast
qed

lemma Mode_card: "card (UNIV :: Mode set) = 5"
  by (simp add: Mode_UNIV)

text \<open>
  C9, as the claim states it: the type \<^verbatim>\<open>Mode\<close> does not have seven variants.
\<close>

theorem Mode_not_seven_variants: "card (UNIV :: Mode set) \<noteq> 7"
  by (simp add: Mode_card)

text \<open>
  C9, amended. \<^verbatim>\<open>Mode\<close> has exactly the five named constants Normal, Shared, Test,
  Fake and FullFake, numbered 0 to 4. Fake-fail and fake-delay are no modes: the engines
  of \<^verbatim>\<open>NewFakeFailer\<close> and \<^verbatim>\<open>NewFakeDelayer\<close> are in mode Fake and carry the
  failing block number and the delay in the fields \<^verbatim>\<open>fakeFail\<close> and
  \<^verbatim>\<open>fakeDelay\<close>.
\<close>

theorem Mode_five_constants:
  "(UNIV :: Mode set) = {ModeNormal, ModeShared, ModeTest, ModeFake, ModeFullFake} \<and>
   card (UNIV :: Mode set) = 5 \<and>
   map Mode_uint [ModeNormal, ModeShared, ModeTest, ModeFake, ModeFullFake] = [0, 1, 2, 3, 4] \<and>
   PowMode (config (engines (snd (NewFakeFailer w fail)) ! fst (NewFakeFailer w fail))) = ModeFake \<and>
   fakeFail (engines (snd (NewFakeFailer w fail)) ! fst (NewFakeFailer w fail)) = fail \<and>
   PowMode (config (engines (snd (NewFakeDelayer w delay)) ! fst (NewFakeDelayer w delay))) = ModeFake \<and>
   fakeDelay (engines (snd (NewFakeDelayer w delay)) ! fst (NewFakeDelayer w delay)) = delay"
  by (simp add: Mode_UNIV NewFakeFailer_def NewFakeDelayer_def alloc_def Hmhash_zero_def
      Config_zero_def)

text \<open>
  C7. \<^verbatim>\<open>New\<close>, for every configuration, notify list (the empty one too) and
  noverify flag, starts a remote sealer: the engine's \<^verbatim>\<open>remote\<close> handle is the new
  sealer, which serves this engine and has received the notify list and the flag. The
  engines of \<^verbatim>\<open>NewFaker\<close>, \<^verbatim>\<open>NewFakeFailer\<close>, \<^verbatim>\<open>NewFakeDelayer\<close> and
  \<^verbatim>\<open>NewFullFaker\<close> have a nil \<^verbatim>\<open>remote\<close> and a nil \<^verbatim>\<open>rand\<close>, and their
  construction starts no sealer and leaves no event.
\<close>

theorem New_starts_sealer_fakers_do_not:
  "(New m w cfg notify nv = (p, w') \<longrightarrow>
      (\<exists>r. remote (engines w' ! p) = Some r \<and> r < length (sealers w') \<and>
           length (sealers w') = Suc (length (sealers w)) \<and>
           engine (sealers w' ! r) = p \<and>
           notifyURLs (sealers w' ! r) = notify \<and>
           noverify (sealers w' ! r) = nv \<and>
           requestExit (sealers w' ! r) = Open \<and> exitCh (sealers w' ! r) = Open \<and>
           trace w' = trace w @ [Started r])) \<and>
   ((q, w'') \<in> {NewFaker w, NewFakeFailer w fail, NewFakeDelayer w delay, NewFullFaker w} \<longrightarrow>
      remote (engines w'' ! q) = None \<and> rand (engines w'' ! q) = None \<and>
      sealers w'' = sealers w \<and> trace w'' = trace w)"
  by (auto simp: New_eq NewFaker_def NewFakeFailer_def NewFakeDelayer_def NewFullFaker_def
      alloc_def Hmhash_zero_def)

theorem New_starts_sealer_fakers_do_not_witness:
  "New (0 :: int) world0 (Config_zero\<lparr>PowMode := ModeTest\<rparr>) [] True =
     (0, \<lparr>engines = [Hmhash_zero\<lparr>config := \<lparr>PowMode = ModeTest, NotifyFull = False,
                                              Log = Some RootLogger\<rparr>,
                                   update := Open, hashrate := Some 0, remote := Some 0\<rparr>],
          sealers = [\<lparr>engine = 0, notifyURLs = [], noverify = True,
                      requestExit = Open, exitCh = Open, remoteRate = 0\<rparr>],
          sharedHmhash = None, trace = [Started 0]\<rparr>) \<and>
   NewFaker (world0 :: int world) \<in>
     {NewFaker world0, NewFakeFailer world0 42, NewFakeDelayer world0 1000, NewFullFaker world0} \<and>
   remote (engines (snd (NewFaker (world0 :: int world))) ! fst (NewFaker (world0 :: int world))) = None \<and>
   rand (engines (snd (NewFaker (world0 :: int world))) ! fst (NewFaker (world0 :: int world))) = None \<and>
   sealers (snd (NewFaker (world0 :: int world))) = [] \<and>
   trace (snd (NewFaker (world0 :: int world))) = []"
  using New_starts_sealer_fakers_do_not
    [of 0 world0 "Config_zero\<lparr>PowMode := ModeTest\<rparr>" "[]" True 0
      "snd (New (0 :: int) world0 (Config_zero\<lparr>PowMode := ModeTest\<rparr>) [] True)"
      "fst (NewFaker (world0 :: int world))" "snd (NewFaker (world0 :: int world))" 42 1000]
  by (simp add: New_eq world0_def Config_zero_def Hmhash_zero_def)


lemma init_world0:
  "init m world0 =
     \<lparr>engines = [\<lparr>config = \<lparr>PowMode = ModeNormal, NotifyFull = False, Log = Some RootLogger\<rparr>,
                  rand = None, threads = 0, update = Open, hashrate = Some m,
                  remote = Some 0, shared = None, fakeFail = 0, fakeDelay = 0,
                  closeOnce = False\<rparr>],
      sealers = [\<lparr>engine = 0, notifyURLs = [], noverify = False,
                  requestExit = Open, exitCh = Open, remoteRate = 0\<rparr>],
      sharedHmhash = Some 0, trace = [Started 0]\<rparr>"
  by (simp add: init_def New_eq world0_def Config_zero_def)

lemma NewShared_init:
  "NewShared (init m world0) =
     (1, \<lparr>engines =
            [\<lparr>config = \<lparr>PowMode = ModeNormal, NotifyFull = False, Log = Some RootLogger\<rparr>,
              rand = None, threads = 0, update = Open, hashrate = Some m,
              remote = Some 0, shared = None, fakeFail = 0, fakeDelay = 0,
              closeOnce = False\<rparr>,
             Hmhash_zero\<lparr>shared := Some 0\<rparr>],
          sealers = [\<lparr>engine = 0, notifyURLs = [], noverify = False,
                      requestExit = Open, exitCh = Open, remoteRate = 0\<rparr>],
          sharedHmhash = Some 0, trace = [Started 0]\<rparr>)"
  by (simp add: NewShared_def alloc_def init_world0)

lemma NewFaker_init:
  "NewFaker (init m world0) =
     (1, \<lparr>engines =
            [\<lparr>config = \<lparr>PowMode = ModeNormal, NotifyFull = False, Log = Some RootLogger\<rparr>,
              rand = None, threads = 0, update = Open, hashrate = Some m,
              remote = Some 0, shared = None, fakeFail = 0, fakeDelay = 0,
              closeOnce = False\<rparr>,
             Hmhash_zero\<lparr>config := \<lparr>PowMode = ModeFake, NotifyFull = False,
                                      Log = Some RootLogger\<rparr>\<rparr>],
          sealers = [\<lparr>engine = 0, notifyURLs = [], noverify = False,
                      requestExit = Open, exitCh = Open, remoteRate = 0\<rparr>],
          sharedHmhash = Some 0, trace = [Started 0]\<rparr>)"
  by (simp add: NewFaker_def alloc_def init_world0 Config_zero_def)


section \<open>Well-formed worlds are what the program builds\<close>

lemma shared_wf_delegate:
  "shared_wf w \<Longrightarrow> p < length (engines w) \<Longrightarrow> shared (engines w ! p) = Some s \<Longrightarrow>
   sharedHmhash w = Some s"
  unfolding shared_wf_def by blast

lemma shared_wf_single:
  "shared_wf w \<Longrightarrow> sharedHmhash w = Some s \<Longrightarrow>
   s < length (engines w) \<and> shared (engines w ! s) = None"
  unfolding shared_wf_def by blast

lemma sealer_wf_handle:
  "sealer_wf w \<Longrightarrow> p < length (engines w) \<Longrightarrow> remote (engines w ! p) = Some r \<Longrightarrow>
   r < length (sealers w) \<and> engine (sealers w ! r) = p \<and>
   requestExit (sealers w ! r) = (if closeOnce (engines w ! p) then Closed else Open) \<and>
   count_list (trace w) (ClosedRequestExit r) = (if closeOnce (engines w ! p) then 1 else 0)"
  unfolding sealer_wf_def by blast

lemma sealer_wf_closing:
  "sealer_wf w \<Longrightarrow> ClosedRequestExit r \<in> set (trace w) \<Longrightarrow> r < length (sealers w)"
  unfolding sealer_wf_def by blast

lemma world_wf_world0: "world_wf world0"
  by (simp add: world_wf_def sealer_wf_def shared_wf_def world0_def)

lemma sealer_wf_grow:
  assumes wf: "sealer_wf w"
    and w': "engines w' = engines w @ es" "sealers w' = sealers w @ ss"
      "\<And>r. ClosedRequestExit r \<in> set (trace w') \<Longrightarrow> ClosedRequestExit r \<in> set (trace w)"
      "\<And>r. count_list (trace w') (ClosedRequestExit r) = count_list (trace w) (ClosedRequestExit r)"
    and new: "\<And>i r. i < length es \<Longrightarrow> remote (es ! i) = Some r \<Longrightarrow>
        length (sealers w) \<le> r \<and> r < length (sealers w) + length ss \<and>
        engine (ss ! (r - length (sealers w))) = length (engines w) + i \<and>
        requestExit (ss ! (r - length (sealers w))) = Open \<and> \<not> closeOnce (es ! i)"
  shows "sealer_wf w'"
proof -
  have closings: "\<forall>r. ClosedRequestExit r \<in> set (trace w') \<longrightarrow> r < length (sealers w')"
  proof (intro allI impI)
    fix r assume "ClosedRequestExit r \<in> set (trace w')"
    then have "ClosedRequestExit r \<in> set (trace w)" by (rule w'(3))
    with wf have "r < length (sealers w)" by (rule sealer_wf_closing)
    then show "r < length (sealers w')" by (simp add: w'(2))
  qed
  have handles: "\<forall>p < length (engines w'). \<forall>r. remote (engines w' ! p) = Some r \<longrightarrow>
        r < length (sealers w') \<and> engine (sealers w' ! r) = p \<and>
        requestExit (sealers w' ! r) = (if closeOnce (engines w' ! p) then Closed else Open) \<and>
        count_list (trace w') (ClosedRequestExit r) = (if closeOnce (engines w' ! p) then 1 else 0)"
  proof (intro allI impI)
    fix p r assume p: "p < length (engines w')" and r: "remote (engines w' ! p) = Some r"
    show "r < length (sealers w') \<and> engine (sealers w' ! r) = p \<and>
          requestExit (sealers w' ! r) = (if closeOnce (engines w' ! p) then Closed else Open) \<and>
          count_list (trace w') (ClosedRequestExit r) = (if closeOnce (engines w' ! p) then 1 else 0)"
    proof (cases "p < length (engines w)")
      case True
      then have same: "engines w' ! p = engines w ! p"
        by (simp add: w'(1) nth_append)
      from r have "remote (engines w ! p) = Some r"
        by (simp only: same)
      from sealer_wf_handle [OF wf True this]
      show ?thesis
        by (simp add: same w'(2,4) nth_append)
    next
      case False
      define i where "i = p - length (engines w)"
      from False p have i: "i < length es" "p = length (engines w) + i"
        by (simp_all add: i_def w'(1))
      from False have at: "engines w' ! p = es ! i"
        by (simp add: w'(1) nth_append i_def)
      from r have "remote (es ! i) = Some r"
        by (simp only: at)
      from new [OF i(1) this]
      have fresh: "length (sealers w) \<le> r" "r < length (sealers w) + length ss"
        "engine (ss ! (r - length (sealers w))) = length (engines w) + i"
        "requestExit (ss ! (r - length (sealers w))) = Open" "\<not> closeOnce (es ! i)"
        by simp_all
      have "ClosedRequestExit r \<notin> set (trace w)"
      proof
        assume "ClosedRequestExit r \<in> set (trace w)"
        with wf have "r < length (sealers w)" by (rule sealer_wf_closing)
        with fresh(1) show False by simp
      qed
      then have "count_list (trace w) (ClosedRequestExit r) = 0"
        by (simp add: count_list_0_iff)
      moreover from fresh(3) i(2) have "engine (ss ! (r - length (sealers w))) = p"
        by simp
      moreover have "\<not> closeOnce (engines w' ! p)"
        unfolding at by (rule fresh(5))
      ultimately show ?thesis
        using fresh(1,2,4) by (simp add: w'(2,4) nth_append)
    qed
  qed
  from handles closings show ?thesis
    unfolding sealer_wf_def by (rule conjI)
qed

lemma shared_wf_grow:
  assumes wf: "shared_wf w"
    and w': "engines w' = engines w @ es" "sharedHmhash w' = sharedHmhash w"
    and new: "\<And>e. e \<in> set es \<Longrightarrow> shared e = None \<or> shared e = sharedHmhash w"
  shows "shared_wf w'"
proof -
  have single: "\<forall>s. sharedHmhash w' = Some s \<longrightarrow>
                  s < length (engines w') \<and> shared (engines w' ! s) = None"
  proof (intro allI impI)
    fix s assume "sharedHmhash w' = Some s"
    then have "sharedHmhash w = Some s"
      by (simp only: w'(2))
    from shared_wf_single [OF wf this]
    show "s < length (engines w') \<and> shared (engines w' ! s) = None"
      by (simp add: w'(1) nth_append)
  qed
  have delegates: "\<forall>p < length (engines w'). \<forall>s. shared (engines w' ! p) = Some s \<longrightarrow>
                     sharedHmhash w' = Some s"
  proof (intro allI impI)
    fix p s assume p: "p < length (engines w')" and s: "shared (engines w' ! p) = Some s"
    show "sharedHmhash w' = Some s"
    proof (cases "p < length (engines w)")
      case True
      with s have "shared (engines w ! p) = Some s"
        by (simp add: w'(1) nth_append)
      from shared_wf_delegate [OF wf True this] show ?thesis
        by (simp only: w'(2))
    next
      case False
      with p have "engines w' ! p \<in> set es"
        by (simp add: w'(1) nth_append)
      from new [OF this] s show ?thesis
        by (simp add: w'(2))
    qed
  qed
  from delegates single show ?thesis
    unfolding shared_wf_def by (rule conjI)
qed

lemma world_wf_alloc:
  assumes "world_wf w" and "remote e = None"
    and "shared e = None \<or> shared e = sharedHmhash w"
  shows "world_wf (snd (alloc w e))"
proof -
  have "sealer_wf (snd (alloc w e))"
  proof (rule sealer_wf_grow [where es = "[e]" and ss = "[]"])
    show "sealer_wf w" using assms(1) by (simp add: world_wf_def)
  qed (simp_all add: alloc_def assms(2))
  moreover have "shared_wf (snd (alloc w e))"
  proof (rule shared_wf_grow [where es = "[e]"])
    show "shared_wf w" using assms(1) by (simp add: world_wf_def)
  qed (use assms(3) in \<open>simp_all add: alloc_def\<close>)
  ultimately show ?thesis
    by (simp add: world_wf_def)
qed

lemma world_wf_New:
  assumes "world_wf w"
  shows "world_wf (snd (New m w cfg notify nv))"
proof -
  have "sealer_wf (snd (New m w cfg notify nv))"
  proof (rule sealer_wf_grow)
    show "sealer_wf w" using assms by (simp add: world_wf_def)
    show "engines (snd (New m w cfg notify nv)) = engines w @
           [\<lparr>config = (if Log cfg = None then cfg\<lparr>Log := Some RootLogger\<rparr> else cfg),
             rand = None, threads = 0, update = Open, hashrate = Some m,
             remote = Some (length (sealers w)),
             shared = (if PowMode cfg = ModeShared then sharedHmhash w else None),
             fakeFail = 0, fakeDelay = 0, closeOnce = False\<rparr>]"
      by (simp add: New_eq)
    show "sealers (snd (New m w cfg notify nv)) = sealers w @
           [\<lparr>engine = length (engines w), notifyURLs = notify, noverify = nv,
             requestExit = Open, exitCh = Open, remoteRate = 0\<rparr>]"
      by (simp add: New_eq)
  qed (simp_all add: New_eq)
  moreover have "shared_wf (snd (New m w cfg notify nv))"
  proof (rule shared_wf_grow)
    show "shared_wf w" using assms by (simp add: world_wf_def)
    show "engines (snd (New m w cfg notify nv)) = engines w @
           [\<lparr>config = (if Log cfg = None then cfg\<lparr>Log := Some RootLogger\<rparr> else cfg),
             rand = None, threads = 0, update = Open, hashrate = Some m,
             remote = Some (length (sealers w)),
             shared = (if PowMode cfg = ModeShared then sharedHmhash w else None),
             fakeFail = 0, fakeDelay = 0, closeOnce = False\<rparr>]"
      by (simp add: New_eq)
  qed (simp_all add: New_eq)
  ultimately show ?thesis
    by (simp add: world_wf_def)
qed

lemma world_wf_init: "world_wf (init m world0)"
  by (simp add: init_world0 world_wf_def sealer_wf_def shared_wf_def)

lemma world_wf_NewShared: "world_wf w \<Longrightarrow> world_wf (snd (NewShared w))"
  unfolding NewShared_def by (rule world_wf_alloc) (simp_all add: Hmhash_zero_def)

lemma world_wf_fakers:
  assumes "world_wf w"
  shows "world_wf (snd (NewFaker w))" and "world_wf (snd (NewFakeFailer w fail))"
    and "world_wf (snd (NewFakeDelayer w delay))" and "world_wf (snd (NewFullFaker w))"
  unfolding NewFaker_def NewFakeFailer_def NewFakeDelayer_def NewFullFaker_def
  by (rule world_wf_alloc [OF assms]; simp add: Hmhash_zero_def)+

lemma world_wf_NewTester: "world_wf w \<Longrightarrow> world_wf (snd (NewTester m w notify nv))"
  unfolding NewTester_def by (rule world_wf_New)

section \<open>Properties of the thread count\<close>

lemma SetThreads_local:
  "shared (engines w ! p) = None \<Longrightarrow>
   SetThreads w p n = Some (w\<lparr>engines := (engines w)[p := (engines w ! p)\<lparr>threads := n\<rparr>]\<rparr>)"
  by (subst SetThreads.simps) simp

lemma SetThreads_forwarded:
  "shared (engines w ! p) = Some s \<Longrightarrow> shared (engines w ! s) = None \<Longrightarrow>
   SetThreads w p n = Some (w\<lparr>engines := (engines w)[s := (engines w ! s)\<lparr>threads := n\<rparr>]\<rparr>)"
  by (subst SetThreads.simps) (simp add: SetThreads_local)

text \<open>
  On an engine without a shared delegate, \<^verbatim>\<open>SetThreads(n)\<close> returns and
  \<^verbatim>\<open>Threads()\<close> then gives \<open>n\<close>.
\<close>

lemma SetThreads_then_Threads:
  assumes "p < length (engines w)" and "shared (engines w ! p) = None"
  shows "\<exists>w'. SetThreads w p n = Some w' \<and> Threads w' p = n"
  using assms by (simp add: SetThreads_local Threads_def)

text \<open>
  On an engine with the shared delegate set, in a well-formed world,
  \<^verbatim>\<open>SetThreads(n)\<close> returns, the shared instance's \<^verbatim>\<open>Threads()\<close> then gives
  \<open>n\<close>, and the delegating engine's own \<^verbatim>\<open>Threads()\<close>, which reads the
  engine's own field, gives what it gave before.
\<close>

lemma SetThreads_shared_then_Threads:
  assumes "world_wf w" and "p < length (engines w)" and "shared (engines w ! p) = Some s"
  shows "\<exists>w'. SetThreads w p n = Some w' \<and> Threads w' s = n \<and> Threads w' p = Threads w p"
proof -
  from assms(1) have sw: "shared_wf w"
    by (simp add: world_wf_def)
  from sw assms(2,3) have "sharedHmhash w = Some s"
    unfolding shared_wf_def by blast
  with sw have s: "s < length (engines w)" "shared (engines w ! s) = None"
    unfolding shared_wf_def by blast+
  with assms(3) have "p \<noteq> s" by auto
  with s assms(3) show ?thesis
    by (simp add: SetThreads_forwarded Threads_def)
qed

text \<open>\<^verbatim>\<open>SetThreads\<close> returns in every well-formed world and keeps it well-formed.\<close>

lemma world_wf_threads:
  assumes wf: "world_wf w" and p: "p < length (engines w)"
  shows "world_wf (w\<lparr>engines := (engines w)[p := (engines w ! p)\<lparr>threads := n\<rparr>]\<rparr>)"
proof -
  let ?w' = "w\<lparr>engines := (engines w)[p := (engines w ! p)\<lparr>threads := n\<rparr>]\<rparr>"
  from wf have swf: "sealer_wf w" and hwf: "shared_wf w"
    by (simp_all add: world_wf_def)
  have len: "length (engines ?w') = length (engines w)"
    by simp
  have fields: "remote (engines ?w' ! q) = remote (engines w ! q) \<and>
                closeOnce (engines ?w' ! q) = closeOnce (engines w ! q) \<and>
                shared (engines ?w' ! q) = shared (engines w ! q)"
    if "q < length (engines w)" for q
    using that by (cases "q = p") simp_all
  have "sealer_wf ?w'"
    unfolding sealer_wf_def
  proof (rule conjI)
    show "\<forall>r. ClosedRequestExit r \<in> set (trace ?w') \<longrightarrow> r < length (sealers ?w')"
      using sealer_wf_closing [OF swf] by simp
    show "\<forall>q < length (engines ?w'). \<forall>r. remote (engines ?w' ! q) = Some r \<longrightarrow>
        r < length (sealers ?w') \<and> engine (sealers ?w' ! r) = q \<and>
        requestExit (sealers ?w' ! r) = (if closeOnce (engines ?w' ! q) then Closed else Open) \<and>
        count_list (trace ?w') (ClosedRequestExit r) = (if closeOnce (engines ?w' ! q) then 1 else 0)"
    proof (intro allI impI)
      fix q r assume q: "q < length (engines ?w')" and r: "remote (engines ?w' ! q) = Some r"
      from q have q': "q < length (engines w)"
        by (simp only: len)
      from r fields [OF q'] have "remote (engines w ! q) = Some r"
        by simp
      from sealer_wf_handle [OF swf q' this] fields [OF q']
      show "r < length (sealers ?w') \<and> engine (sealers ?w' ! r) = q \<and>
        requestExit (sealers ?w' ! r) = (if closeOnce (engines ?w' ! q) then Closed else Open) \<and>
        count_list (trace ?w') (ClosedRequestExit r) = (if closeOnce (engines ?w' ! q) then 1 else 0)"
        by simp
    qed
  qed
  moreover have "shared_wf ?w'"
    unfolding shared_wf_def
  proof (rule conjI)
    show "\<forall>s. sharedHmhash ?w' = Some s \<longrightarrow>
            s < length (engines ?w') \<and> shared (engines ?w' ! s) = None"
    proof (intro allI impI)
      fix s assume "sharedHmhash ?w' = Some s"
      then have "sharedHmhash w = Some s"
        by simp
      from shared_wf_single [OF hwf this]
      have s: "s < length (engines w)" "shared (engines w ! s) = None"
        by simp_all
      with fields [OF s(1)] show "s < length (engines ?w') \<and> shared (engines ?w' ! s) = None"
        by (simp only: len simp_thms)
    qed
    show "\<forall>q < length (engines ?w'). \<forall>s. shared (engines ?w' ! q) = Some s \<longrightarrow>
            sharedHmhash ?w' = Some s"
    proof (intro allI impI)
      fix q s assume q: "q < length (engines ?w')" and s: "shared (engines ?w' ! q) = Some s"
      from q have q': "q < length (engines w)"
        by (simp only: len)
      from s fields [OF q'] have "shared (engines w ! q) = Some s"
        by simp
      from shared_wf_delegate [OF hwf q' this] show "sharedHmhash ?w' = Some s"
        by simp
    qed
  qed
  ultimately show ?thesis
    by (simp add: world_wf_def)
qed

lemma world_wf_SetThreads:
  assumes wf: "world_wf w" and p: "p < length (engines w)"
  shows "\<exists>w'. SetThreads w p n = Some w' \<and> world_wf w' \<and>
              length (engines w') = length (engines w)"
proof (cases "shared (engines w ! p)")
  case None
  with world_wf_threads [OF wf p, of n] show ?thesis
    by (simp add: SetThreads_local)
next
  case (Some s)
  from wf have hwf: "shared_wf w"
    by (simp add: world_wf_def)
  from shared_wf_single [OF hwf shared_wf_delegate [OF hwf p Some]]
  have s: "s < length (engines w)" "shared (engines w ! s) = None"
    by simp_all
  with world_wf_threads [OF wf s(1), of n] Some show ?thesis
    by (simp add: SetThreads_forwarded)
qed

text \<open>
  C1, as the claim states it. After the package's \<^verbatim>\<open>init\<close>, \<^verbatim>\<open>NewShared()\<close>
  gives engine 1, which delegates to the shared instance, engine 0.
  \<^verbatim>\<open>SetThreads(2)\<close> on engine 1 returns and sets the count of the shared instance:
  \<^verbatim>\<open>Threads()\<close> then gives 2 on the shared instance, but 0 on engine 1 itself.
\<close>

theorem SetThreads_shared_not_read_back:
  "shared (engines (snd (NewShared (init (0 :: int) world0))) ! 1) = Some 0 \<and>
   sharedHmhash (snd (NewShared (init (0 :: int) world0))) = Some 0 \<and>
   SetThreads (snd (NewShared (init (0 :: int) world0))) 1 2 =
     Some ((snd (NewShared (init (0 :: int) world0)))
            \<lparr>engines := (engines (snd (NewShared (init (0 :: int) world0))))
               [0 := (engines (snd (NewShared (init (0 :: int) world0))) ! 0)\<lparr>threads := 2\<rparr>]\<rparr>) \<and>
   Threads ((snd (NewShared (init (0 :: int) world0)))
            \<lparr>engines := (engines (snd (NewShared (init (0 :: int) world0))))
               [0 := (engines (snd (NewShared (init (0 :: int) world0))) ! 0)\<lparr>threads := 2\<rparr>]\<rparr>) 0 = 2 \<and>
   Threads ((snd (NewShared (init (0 :: int) world0)))
            \<lparr>engines := (engines (snd (NewShared (init (0 :: int) world0))))
               [0 := (engines (snd (NewShared (init (0 :: int) world0))) ! 0)\<lparr>threads := 2\<rparr>]\<rparr>) 1 = 0"
proof -
  let ?W = "snd (NewShared (init (0 :: int) world0))"
  let ?W' = "?W\<lparr>engines := (engines ?W)[0 := (engines ?W ! 0)\<lparr>threads := 2\<rparr>]\<rparr>"
  have delegate: "shared (engines ?W ! 1) = Some 0"
    by (simp add: NewShared_init)
  have single: "shared (engines ?W ! 0) = None"
    by (simp add: NewShared_init)
  have pkg: "sharedHmhash ?W = Some 0"
    by (simp add: NewShared_init)
  have "Threads ?W' 0 = 2"
    by (simp add: NewShared_init Threads_def)
  moreover have "Threads ?W' 1 = 0"
    by (simp add: NewShared_init Threads_def Hmhash_zero_def)
  ultimately show ?thesis
    using delegate pkg SetThreads_forwarded [OF delegate single, of 2] by blast
qed

text \<open>
  C1, amended. In a well-formed world, on an engine without a shared delegate
  \<^verbatim>\<open>SetThreads(n)\<close> returns and \<^verbatim>\<open>Threads()\<close> then gives \<open>n\<close>; on an engine
  with the shared delegate set, the delegate is the shared instance of the package,
  \<^verbatim>\<open>SetThreads(n)\<close> returns, and the shared instance's \<^verbatim>\<open>Threads()\<close> then gives
  \<open>n\<close>. The engines of \<^verbatim>\<open>NewShared\<close> and of \<^verbatim>\<open>New\<close> in mode Shared have the
  package's shared instance as their delegate.
\<close>

theorem SetThreads_observable:
  assumes "world_wf w" and "p < length (engines w)"
  shows "(shared (engines w ! p) = None \<longrightarrow>
           (\<exists>w'. SetThreads w p n = Some w' \<and> Threads w' p = n)) \<and>
         (\<forall>s. shared (engines w ! p) = Some s \<longrightarrow>
           sharedHmhash w = Some s \<and>
           (\<exists>w'. SetThreads w p n = Some w' \<and> Threads w' s = n)) \<and>
         shared (engines (snd (NewShared w)) ! fst (NewShared w)) = sharedHmhash w \<and>
         (PowMode cfg = ModeShared \<longrightarrow>
            shared (engines (snd (New m w cfg notify nv)) ! fst (New m w cfg notify nv)) =
              sharedHmhash w)"
proof (intro conjI allI impI)
  assume "shared (engines w ! p) = None"
  from SetThreads_then_Threads [OF assms(2) this]
  show "\<exists>w'. SetThreads w p n = Some w' \<and> Threads w' p = n" .
next
  fix s assume s: "shared (engines w ! p) = Some s"
  from assms(1) have "shared_wf w"
    by (simp add: world_wf_def)
  from shared_wf_delegate [OF this assms(2) s]
  show "sharedHmhash w = Some s" .
  from SetThreads_shared_then_Threads [OF assms s]
  show "\<exists>w'. SetThreads w p n = Some w' \<and> Threads w' s = n"
    by blast
next
  show "shared (engines (snd (NewShared w)) ! fst (NewShared w)) = sharedHmhash w"
    by (simp add: NewShared_def alloc_def Hmhash_zero_def)
next
  assume "PowMode cfg = ModeShared"
  then show "shared (engines (snd (New m w cfg notify nv)) ! fst (New m w cfg notify nv)) =
               sharedHmhash w"
    by (simp add: New_eq)
qed

theorem SetThreads_observable_witness:
  "world_wf (snd (NewShared (init (0 :: int) world0))) \<and>
   1 < length (engines (snd (NewShared (init (0 :: int) world0)))) \<and>
   shared (engines (snd (NewShared (init (0 :: int) world0))) ! 0) = None \<and>
   (\<exists>w'. SetThreads (snd (NewShared (init (0 :: int) world0))) 0 4 = Some w' \<and>
         Threads w' 0 = 4) \<and>
   shared (engines (snd (NewShared (init (0 :: int) world0))) ! 1) = Some 0 \<and>
   (\<exists>w'. SetThreads (snd (NewShared (init (0 :: int) world0))) 1 2 = Some w' \<and>
         Threads w' 0 = 2)"
proof -
  let ?W = "snd (NewShared (init (0 :: int) world0))"
  have wf: "world_wf ?W"
    unfolding NewShared_def
    by (rule world_wf_alloc [OF world_wf_init]) (simp_all add: Hmhash_zero_def)
  have p0: "0 < length (engines ?W)" and p1: "1 < length (engines ?W)"
    by (simp_all add: NewShared_init)
  have single: "shared (engines ?W ! 0) = None"
    and delegate: "shared (engines ?W ! 1) = Some 0"
    by (simp_all add: NewShared_init)
  from SetThreads_observable [OF wf p0, of 4] single
  have "\<exists>w'. SetThreads ?W 0 4 = Some w' \<and> Threads w' 0 = 4"
    by blast
  moreover from SetThreads_observable [OF wf p1, of 2] delegate
  have "\<exists>w'. SetThreads ?W 1 2 = Some w' \<and> Threads w' 0 = 2"
    by blast
  ultimately show ?thesis
    using wf p1 single delegate by blast
qed

section \<open>Properties of shutdown\<close>

lemma StopRemoteSealer_done:
  "closeOnce (engines w ! p) \<Longrightarrow> StopRemoteSealer w p = Inr (w, None)"
  by (simp add: StopRemoteSealer_def)

lemma StopRemoteSealer_no_remote:
  "\<not> closeOnce (engines w ! p) \<Longrightarrow> remote (engines w ! p) = None \<Longrightarrow>
   StopRemoteSealer w p =
     Inr (w\<lparr>engines := (engines w)[p := (engines w ! p)\<lparr>closeOnce := True\<rparr>]\<rparr>, None)"
  by (simp add: StopRemoteSealer_def Let_def)

lemma StopRemoteSealer_teardown:
  assumes "sealer_wf w" and "p < length (engines w)"
    and "\<not> closeOnce (engines w ! p)" and "remote (engines w ! p) = Some r"
  shows "StopRemoteSealer w p =
     Inr (w\<lparr>engines := (engines w)[p := (engines w ! p)\<lparr>closeOnce := True\<rparr>],
            sealers := (sealers w)[r := (sealers w ! r)\<lparr>requestExit := Closed, exitCh := Closed\<rparr>],
            trace := trace w @ [ClosedRequestExit r, ExitConfirmed r]\<rparr>, None)"
proof -
  from sealer_wf_handle [OF assms(1,2,4)] assms(3)
  have r: "r < length (sealers w)" "requestExit (sealers w ! r) = Open"
    by simp_all
  with assms(2,3,4) show ?thesis
    by (simp add: StopRemoteSealer_def Let_def close_chan_def sealer_exit_def)
qed

lemma shared_wf_closeOnce:
  assumes "shared_wf w" and "p < length (engines w)"
    and "engines w' = (engines w)[p := (engines w ! p)\<lparr>closeOnce := True\<rparr>]"
    and "sharedHmhash w' = sharedHmhash w"
  shows "shared_wf w'"
proof -
  have sh: "shared (engines w' ! q) = shared (engines w ! q)" if "q < length (engines w)" for q
    using that by (cases "q = p") (simp_all add: assms(3))
  have len: "length (engines w') = length (engines w)"
    by (simp add: assms(3))
  have single: "\<forall>s. sharedHmhash w' = Some s \<longrightarrow>
                  s < length (engines w') \<and> shared (engines w' ! s) = None"
  proof (intro allI impI)
    fix s assume "sharedHmhash w' = Some s"
    then have "sharedHmhash w = Some s"
      by (simp only: assms(4))
    from shared_wf_single [OF assms(1) this]
    show "s < length (engines w') \<and> shared (engines w' ! s) = None"
      by (simp add: len sh)
  qed
  have delegates: "\<forall>q < length (engines w'). \<forall>s. shared (engines w' ! q) = Some s \<longrightarrow>
                     sharedHmhash w' = Some s"
  proof (intro allI impI)
    fix q s assume q: "q < length (engines w')" and s: "shared (engines w' ! q) = Some s"
    from q have q': "q < length (engines w)"
      by (simp only: len)
    with s have "shared (engines w ! q) = Some s"
      by (simp add: sh)
    from shared_wf_delegate [OF assms(1) q' this] show "sharedHmhash w' = Some s"
      by (simp only: assms(4))
  qed
  from delegates single show ?thesis
    unfolding shared_wf_def by (rule conjI)
qed

lemma sealer_wf_no_remote:
  assumes wf: "sealer_wf w" and p: "p < length (engines w)"
    and nil: "remote (engines w ! p) = None"
    and w': "engines w' = (engines w)[p := (engines w ! p)\<lparr>closeOnce := True\<rparr>]"
      "sealers w' = sealers w" "trace w' = trace w"
  shows "sealer_wf w'"
proof -
  have len: "length (engines w') = length (engines w)"
    by (simp add: w'(1))
  have closings: "\<forall>r. ClosedRequestExit r \<in> set (trace w') \<longrightarrow> r < length (sealers w')"
    using sealer_wf_closing [OF wf] by (simp add: w'(2,3))
  have handles: "\<forall>q < length (engines w'). \<forall>r. remote (engines w' ! q) = Some r \<longrightarrow>
        r < length (sealers w') \<and> engine (sealers w' ! r) = q \<and>
        requestExit (sealers w' ! r) = (if closeOnce (engines w' ! q) then Closed else Open) \<and>
        count_list (trace w') (ClosedRequestExit r) = (if closeOnce (engines w' ! q) then 1 else 0)"
  proof (intro allI impI)
    fix q r assume q: "q < length (engines w')" and r: "remote (engines w' ! q) = Some r"
    from q have q': "q < length (engines w)"
      by (simp only: len)
    have "q \<noteq> p"
    proof
      assume "q = p"
      with r p nil show False by (simp add: w'(1))
    qed
    then have same: "engines w' ! q = engines w ! q"
      by (simp add: w'(1))
    from r have "remote (engines w ! q) = Some r"
      by (simp only: same)
    from sealer_wf_handle [OF wf q' this]
    show "r < length (sealers w') \<and> engine (sealers w' ! r) = q \<and>
        requestExit (sealers w' ! r) = (if closeOnce (engines w' ! q) then Closed else Open) \<and>
        count_list (trace w') (ClosedRequestExit r) = (if closeOnce (engines w' ! q) then 1 else 0)"
      by (simp add: same w'(2,3))
  qed
  from handles closings show ?thesis
    unfolding sealer_wf_def by (rule conjI)
qed

lemma sealer_wf_teardown:
  assumes wf: "sealer_wf w" and p: "p < length (engines w)"
    and fresh: "\<not> closeOnce (engines w ! p)" and rem: "remote (engines w ! p) = Some r"
    and w': "engines w' = (engines w)[p := (engines w ! p)\<lparr>closeOnce := True\<rparr>]"
      "sealers w' = (sealers w)[r := (sealers w ! r)\<lparr>requestExit := Closed, exitCh := Closed\<rparr>]"
      "trace w' = trace w @ [ClosedRequestExit r, ExitConfirmed r]"
  shows "sealer_wf w'"
proof -
  have len: "length (engines w') = length (engines w)" "length (sealers w') = length (sealers w)"
    by (simp_all add: w'(1,2))
  from sealer_wf_handle [OF wf p rem] fresh
  have own: "r < length (sealers w)" "engine (sealers w ! r) = p"
    "count_list (trace w) (ClosedRequestExit r) = 0"
    by simp_all
  have closings: "\<forall>r'. ClosedRequestExit r' \<in> set (trace w') \<longrightarrow> r' < length (sealers w')"
  proof (intro allI impI)
    fix r' assume "ClosedRequestExit r' \<in> set (trace w')"
    then have "r' = r \<or> ClosedRequestExit r' \<in> set (trace w)"
      by (auto simp: w'(3))
    then show "r' < length (sealers w')"
      using own(1) sealer_wf_closing [OF wf, of r'] by (auto simp: len)
  qed
  have handles: "\<forall>q < length (engines w'). \<forall>r'. remote (engines w' ! q) = Some r' \<longrightarrow>
        r' < length (sealers w') \<and> engine (sealers w' ! r') = q \<and>
        requestExit (sealers w' ! r') = (if closeOnce (engines w' ! q) then Closed else Open) \<and>
        count_list (trace w') (ClosedRequestExit r') = (if closeOnce (engines w' ! q) then 1 else 0)"
  proof (intro allI impI)
    fix q r' assume q: "q < length (engines w')" and r': "remote (engines w' ! q) = Some r'"
    from q have q': "q < length (engines w)"
      by (simp only: len)
    show "r' < length (sealers w') \<and> engine (sealers w' ! r') = q \<and>
        requestExit (sealers w' ! r') = (if closeOnce (engines w' ! q) then Closed else Open) \<and>
        count_list (trace w') (ClosedRequestExit r') = (if closeOnce (engines w' ! q) then 1 else 0)"
    proof (cases "q = p")
      case True
      with r' p rem have "r' = r"
        by (simp add: w'(1))
      with True p own show ?thesis
        by (simp add: w' )
    next
      case False
      then have same: "engines w' ! q = engines w ! q"
        by (simp add: w'(1))
      from r' have "remote (engines w ! q) = Some r'"
        by (simp only: same)
      note old = sealer_wf_handle [OF wf q' this]
      have "r' \<noteq> r"
      proof
        assume "r' = r"
        with old own(2) False show False by simp
      qed
      with old show ?thesis
        by (simp add: same w'(2,3))
    qed
  qed
  from handles closings show ?thesis
    unfolding sealer_wf_def by (rule conjI)
qed

lemma Close_step:
  assumes wf: "world_wf w" and p: "p < length (engines w)"
  obtains w' where "Close w p = Inr (w', None)" and "world_wf w'"
    and "length (engines w') = length (engines w)"
    and "closeOnce (engines w' ! p)"
    and "remote (engines w' ! p) = remote (engines w ! p)"
    and "trace w' = trace w \<or>
         (\<exists>r. remote (engines w ! p) = Some r \<and>
              trace w' = trace w @ [ClosedRequestExit r, ExitConfirmed r])"
    and "remote (engines w ! p) = None \<longrightarrow>
           sealers w' = sealers w \<and> trace w' = trace w \<and>
           engines w' = (engines w)[p := (engines w ! p)\<lparr>closeOnce := True\<rparr>]"
proof -
  from wf have swf: "sealer_wf w" and hwf: "shared_wf w"
    by (simp_all add: world_wf_def)
  show ?thesis
  proof (cases "closeOnce (engines w ! p)")
    case True
    then have "(engines w ! p)\<lparr>closeOnce := True\<rparr> = engines w ! p"
      by simp
    then have same: "(engines w)[p := (engines w ! p)\<lparr>closeOnce := True\<rparr>] = engines w"
      by (simp only: list_update_id)
    show ?thesis
    proof (rule that [of w])
      show "Close w p = Inr (w, None)"
        using True by (simp add: Close_def StopRemoteSealer_done)
      show "remote (engines w ! p) = None \<longrightarrow>
           sealers w = sealers w \<and> trace w = trace w \<and>
           engines w = (engines w)[p := (engines w ! p)\<lparr>closeOnce := True\<rparr>]"
        by (simp only: same simp_thms)
    qed (simp_all add: wf True)
  next
    case False
    show ?thesis
    proof (cases "remote (engines w ! p)")
      case None
      let ?w' = "w\<lparr>engines := (engines w)[p := (engines w ! p)\<lparr>closeOnce := True\<rparr>]\<rparr>"
      have "sealer_wf ?w'"
        by (rule sealer_wf_no_remote [OF swf p None]) simp_all
      moreover have "shared_wf ?w'"
        by (rule shared_wf_closeOnce [OF hwf p]) simp_all
      ultimately have wf': "world_wf ?w'"
        by (simp add: world_wf_def)
      show ?thesis
      proof (rule that [of ?w'])
        show "Close w p = Inr (?w', None)"
          using False None by (simp add: Close_def StopRemoteSealer_no_remote)
      qed (simp_all add: wf' p None)
    next
      case (Some r)
      let ?w' = "w\<lparr>engines := (engines w)[p := (engines w ! p)\<lparr>closeOnce := True\<rparr>],
            sealers := (sealers w)[r := (sealers w ! r)\<lparr>requestExit := Closed, exitCh := Closed\<rparr>],
            trace := trace w @ [ClosedRequestExit r, ExitConfirmed r]\<rparr>"
      have "sealer_wf ?w'"
        by (rule sealer_wf_teardown [OF swf p False Some]) simp_all
      moreover have "shared_wf ?w'"
        by (rule shared_wf_closeOnce [OF hwf p]) simp_all
      ultimately have wf': "world_wf ?w'"
        by (simp add: world_wf_def)
      show ?thesis
      proof (rule that [of ?w'])
        show "Close w p = Inr (?w', None)"
          by (simp add: Close_def StopRemoteSealer_teardown [OF swf p False Some])
      qed (simp_all add: wf' p Some)
    qed
  qed
qed

lemma Close_times_done:
  "closeOnce (engines w ! p) \<Longrightarrow> Close_times k w p = Inr (w, replicate k None)"
  by (induction k) (simp_all add: Close_def StopRemoteSealer_done)

lemma closings_bound:
  assumes "world_wf w" and "p < length (engines w)" and "remote (engines w ! p) = Some r"
  shows "count_list (trace w) (ClosedRequestExit r) \<le> 1"
proof -
  from assms(1) have "sealer_wf w"
    by (simp add: world_wf_def)
  from sealer_wf_handle [OF this assms(2,3)] show ?thesis
    by simp
qed

text \<open>
  C6. In a well-formed world, \<^verbatim>\<open>Close\<close> is \<^verbatim>\<open>StopRemoteSealer\<close>, and any number
  \<open>k\<close> of calls in a row on an engine all return a nil error. Together they add
  nothing to the trace, or the one teardown of the engine's sealer (closing
  \<^verbatim>\<open>requestExit\<close>, then the exit confirmation); the trace never has more than one
  closing of that sealer's \<^verbatim>\<open>requestExit\<close>. On an engine whose \<^verbatim>\<open>remote\<close> is
  nil the calls leave the sealers and the trace as they are and change nothing but the
  done flag of the engine's \<^verbatim>\<open>closeOnce\<close>.
\<close>

theorem Close_at_most_once:
  assumes wf: "world_wf w" and p: "p < length (engines w)"
  shows "Close w p = StopRemoteSealer w p \<and>
         (\<exists>w'. Close_times k w p = Inr (w', replicate k None) \<and>
            (trace w' = trace w \<or>
             (\<exists>r. remote (engines w ! p) = Some r \<and>
                  trace w' = trace w @ [ClosedRequestExit r, ExitConfirmed r])) \<and>
            (\<forall>r. remote (engines w ! p) = Some r \<longrightarrow>
                count_list (trace w') (ClosedRequestExit r) \<le> 1) \<and>
            (remote (engines w ! p) = None \<longrightarrow>
               sealers w' = sealers w \<and> trace w' = trace w \<and>
               engines w' = (if k = 0 then engines w
                             else (engines w)[p := (engines w ! p)\<lparr>closeOnce := True\<rparr>])))"
proof (rule conjI)
  show "Close w p = StopRemoteSealer w p"
    by (simp add: Close_def)
next
  show "\<exists>w'. Close_times k w p = Inr (w', replicate k None) \<and>
            (trace w' = trace w \<or>
             (\<exists>r. remote (engines w ! p) = Some r \<and>
                  trace w' = trace w @ [ClosedRequestExit r, ExitConfirmed r])) \<and>
            (\<forall>r. remote (engines w ! p) = Some r \<longrightarrow>
                count_list (trace w') (ClosedRequestExit r) \<le> 1) \<and>
            (remote (engines w ! p) = None \<longrightarrow>
               sealers w' = sealers w \<and> trace w' = trace w \<and>
               engines w' = (if k = 0 then engines w
                             else (engines w)[p := (engines w ! p)\<lparr>closeOnce := True\<rparr>]))"
  proof (cases k)
    case 0
    show ?thesis
    proof (intro exI [of _ w] conjI allI impI)
      show "Close_times k w p = Inr (w, replicate k None)"
        by (simp add: 0)
      show "engines w = (if k = 0 then engines w
                         else (engines w)[p := (engines w ! p)\<lparr>closeOnce := True\<rparr>])"
        by (simp add: 0)
      show "count_list (trace w) (ClosedRequestExit r) \<le> 1"
        if "remote (engines w ! p) = Some r" for r
        by (rule closings_bound [OF wf p that])
    qed simp_all
  next
    case (Suc j)
    from wf p obtain w1 where w1: "Close w p = Inr (w1, None)" "world_wf w1"
      "length (engines w1) = length (engines w)" "closeOnce (engines w1 ! p)"
      "remote (engines w1 ! p) = remote (engines w ! p)"
      and tr: "trace w1 = trace w \<or>
         (\<exists>r. remote (engines w ! p) = Some r \<and>
              trace w1 = trace w @ [ClosedRequestExit r, ExitConfirmed r])"
      and nil: "remote (engines w ! p) = None \<longrightarrow>
           sealers w1 = sealers w \<and> trace w1 = trace w \<and>
           engines w1 = (engines w)[p := (engines w ! p)\<lparr>closeOnce := True\<rparr>]"
      by (rule Close_step)
    from p have p1: "p < length (engines w1)"
      by (simp only: w1(3))
    show ?thesis
    proof (intro exI [of _ w1] conjI allI impI)
      show "Close_times k w p = Inr (w1, replicate k None)"
        by (simp add: Suc w1(1) Close_times_done [OF w1(4)])
      show "trace w1 = trace w \<or>
         (\<exists>r. remote (engines w ! p) = Some r \<and>
              trace w1 = trace w @ [ClosedRequestExit r, ExitConfirmed r])"
        by (rule tr)
      show "count_list (trace w1) (ClosedRequestExit r) \<le> 1"
        if "remote (engines w ! p) = Some r" for r
      proof -
        from that have "remote (engines w1 ! p) = Some r"
          by (simp only: w1(5))
        from closings_bound [OF w1(2) p1 this] show ?thesis .
      qed
      show "sealers w1 = sealers w" if "remote (engines w ! p) = None"
        using nil that by simp
      show "trace w1 = trace w" if "remote (engines w ! p) = None"
        using nil that by simp
      show "engines w1 = (if k = 0 then engines w
                          else (engines w)[p := (engines w ! p)\<lparr>closeOnce := True\<rparr>])"
        if "remote (engines w ! p) = None"
        using nil that by (simp add: Suc)
    qed
  qed
qed

theorem Close_at_most_once_witness:
  "world_wf (snd (NewFaker (init (0 :: int) world0))) \<and>
   0 < length (engines (snd (NewFaker (init (0 :: int) world0)))) \<and>
   1 < length (engines (snd (NewFaker (init (0 :: int) world0)))) \<and>
   (\<exists>w'. Close_times 3 (snd (NewFaker (init (0 :: int) world0))) 0 = Inr (w', [None, None, None]) \<and>
         trace w' = [Started 0, ClosedRequestExit 0, ExitConfirmed 0] \<and>
         count_list (trace w') (ClosedRequestExit 0) \<le> 1) \<and>
   (\<exists>w'. Close_times 2 (snd (NewFaker (init (0 :: int) world0))) 1 = Inr (w', [None, None]) \<and>
         trace w' = [Started 0] \<and>
         sealers w' = sealers (snd (NewFaker (init (0 :: int) world0))))"
proof -
  let ?W = "snd (NewFaker (init (0 :: int) world0))"
  have wf: "world_wf ?W"
    unfolding NewFaker_def
    by (rule world_wf_alloc [OF world_wf_init]) (simp_all add: Hmhash_zero_def)
  have p0: "0 < length (engines ?W)" and p1: "1 < length (engines ?W)"
    by (simp_all add: NewFaker_init)
  have r0: "remote (engines ?W ! 0) = Some 0" and r1: "remote (engines ?W ! 1) = None"
    by (simp_all add: NewFaker_init Hmhash_zero_def)
  have tr: "trace ?W = [Started 0]"
    by (simp add: NewFaker_init)
  have three: "replicate 3 None = [None, None, None :: error option]"
    and two: "replicate 2 None = [None, None :: error option]"
    by (simp_all add: numeral_3_eq_3 numeral_2_eq_2)
  from Close_at_most_once [OF wf p0, of 3] obtain w' where w':
    "Close_times 3 ?W 0 = Inr (w', replicate 3 None)"
    "trace w' = trace ?W \<or>
       (\<exists>r. remote (engines ?W ! 0) = Some r \<and>
            trace w' = trace ?W @ [ClosedRequestExit r, ExitConfirmed r])"
    "\<forall>r. remote (engines ?W ! 0) = Some r \<longrightarrow>
        count_list (trace w') (ClosedRequestExit r) \<le> 1"
    by blast
  have run: "Close_times 3 ?W 0 =
     Inr (?W\<lparr>engines := (engines ?W)[0 := (engines ?W ! 0)\<lparr>closeOnce := True\<rparr>],
            sealers := (sealers ?W)[0 := (sealers ?W ! 0)\<lparr>requestExit := Closed, exitCh := Closed\<rparr>],
            trace := trace ?W @ [ClosedRequestExit 0, ExitConfirmed 0]\<rparr>, [None, None, None])"
    by (simp add: NewFaker_init numeral_3_eq_3 Close_def StopRemoteSealer_def close_chan_def
        sealer_exit_def)
  with w'(1) have "w' = ?W\<lparr>engines := (engines ?W)[0 := (engines ?W ! 0)\<lparr>closeOnce := True\<rparr>],
            sealers := (sealers ?W)[0 := (sealers ?W ! 0)\<lparr>requestExit := Closed, exitCh := Closed\<rparr>],
            trace := trace ?W @ [ClosedRequestExit 0, ExitConfirmed 0]\<rparr>"
    by simp
  then have "trace w' = [Started 0, ClosedRequestExit 0, ExitConfirmed 0]"
    by (simp add: tr)
  with w'(1,3) r0 have first: "\<exists>w'. Close_times 3 ?W 0 = Inr (w', [None, None, None]) \<and>
         trace w' = [Started 0, ClosedRequestExit 0, ExitConfirmed 0] \<and>
         count_list (trace w') (ClosedRequestExit 0) \<le> 1"
    unfolding three by blast
  from Close_at_most_once [OF wf p1, of 2] r1 obtain w'' where
    "Close_times 2 ?W 1 = Inr (w'', replicate 2 None)"
    "sealers w'' = sealers ?W" "trace w'' = trace ?W"
    by blast
  then have second: "\<exists>w'. Close_times 2 ?W 1 = Inr (w', [None, None]) \<and>
         trace w' = [Started 0] \<and> sealers w' = sealers ?W"
    unfolding two tr by blast
  from wf p0 p1 first second show ?thesis
    by blast
qed

section \<open>Properties of the hashrate\<close>

text \<open>
  Where the meter is allocated and reads \<open>local\<close>, \<^verbatim>\<open>Hashrate\<close> returns: in a
  mode other than Normal and Test it gives \<open>local\<close>; in mode Normal or Test with a
  remote sealer it gives \<open>local\<close> when the sealer's exit channel is closed, and
  \<open>local\<close> plus the sealer's aggregate remote hashrate, converted to
  \<^verbatim>\<open>float64\<close>, when it is not.
\<close>

lemma Hashrate_local_and_remote:
  assumes "p < length (engines w)" and "hashrate (engines w ! p) = Some local"
  shows "(PowMode (config (engines w ! p)) \<noteq> ModeNormal \<and>
          PowMode (config (engines w ! p)) \<noteq> ModeTest \<longrightarrow>
            Hashrate fadd float64 w p = Inr local) \<and>
         ((PowMode (config (engines w ! p)) = ModeNormal \<or>
           PowMode (config (engines w ! p)) = ModeTest) \<and>
          remote (engines w ! p) = Some r \<and> r < length (sealers w) \<longrightarrow>
            (exitCh (sealers w ! r) = Closed \<longrightarrow> Hashrate fadd float64 w p = Inr local) \<and>
            (exitCh (sealers w ! r) \<noteq> Closed \<longrightarrow>
               Hashrate fadd float64 w p =
                 Inr (fadd local (float64 (remoteRate (sealers w ! r))))))"
  using assms(2) by (auto simp: Hashrate_def Rate1_def fetchRate_def)

lemma Hashrate_local_and_remote_example:
  "(0 :: nat) < length (engines (snd (New (7 :: int) world0 (Config_zero\<lparr>PowMode := ModeTest\<rparr>) [] False))) \<and>
   hashrate (engines (snd (New (7 :: int) world0 (Config_zero\<lparr>PowMode := ModeTest\<rparr>) [] False)) ! 0) = Some 7 \<and>
   Hashrate (+) uint (snd (New (7 :: int) world0 (Config_zero\<lparr>PowMode := ModeTest\<rparr>) [] False)) 0 = Inr 7 \<and>
   Hashrate (+) uint
     ((snd (New (7 :: int) world0 (Config_zero\<lparr>PowMode := ModeTest\<rparr>) [] False))
        \<lparr>sealers := [\<lparr>engine = 0, notifyURLs = [], noverify = False,
                      requestExit = Open, exitCh = Open, remoteRate = 5\<rparr>]\<rparr>) 0 = Inr 12 \<and>
   Hashrate (+) uint
     ((snd (New (7 :: int) world0 (Config_zero\<lparr>PowMode := ModeTest\<rparr>) [] False))
        \<lparr>sealers := [\<lparr>engine = 0, notifyURLs = [], noverify = False,
                      requestExit = Closed, exitCh = Closed, remoteRate = 5\<rparr>]\<rparr>) 0 = Inr 7 \<and>
   Hashrate (+) uint (snd (New (7 :: int) world0 (Config_zero\<lparr>PowMode := ModeShared\<rparr>) [] False)) 0 = Inr 7"
proof -
  let ?T = "snd (New (7 :: int) world0 (Config_zero\<lparr>PowMode := ModeTest\<rparr>) [] False)"
  let ?running = "?T\<lparr>sealers := [\<lparr>engine = 0, notifyURLs = [], noverify = False,
                      requestExit = Open, exitCh = Open, remoteRate = 5\<rparr>]\<rparr>"
  let ?exited = "?T\<lparr>sealers := [\<lparr>engine = 0, notifyURLs = [], noverify = False,
                      requestExit = Closed, exitCh = Closed, remoteRate = 5\<rparr>]\<rparr>"
  let ?S = "snd (New (7 :: int) world0 (Config_zero\<lparr>PowMode := ModeShared\<rparr>) [] False)"
  have T: "0 < length (engines ?T)" "hashrate (engines ?T ! 0) = Some 7"
    "PowMode (config (engines ?T ! 0)) = ModeTest" "remote (engines ?T ! 0) = Some 0"
    "0 < length (sealers ?T)" "exitCh (sealers ?T ! 0) = Open" "remoteRate (sealers ?T ! 0) = 0"
    by (simp_all add: New_eq world0_def Config_zero_def)
  have S: "0 < length (engines ?S)" "hashrate (engines ?S ! 0) = Some 7"
    "PowMode (config (engines ?S ! 0)) = ModeShared"
    by (simp_all add: New_eq world0_def Config_zero_def)
  have 1: "Hashrate (+) uint ?T 0 = Inr 7"
    using Hashrate_local_and_remote [OF T(1,2), where r = 0 and fadd = "(+)" and ?float64.0 = uint] T(3-7) by simp
  have 2: "Hashrate (+) uint ?running 0 = Inr 12"
    using Hashrate_local_and_remote [where p = 0 and w = ?running and local = 7 and r = 0 and fadd = "(+)" and ?float64.0 = uint] T(1-4) by simp
  have 3: "Hashrate (+) uint ?exited 0 = Inr 7"
    using Hashrate_local_and_remote [where p = 0 and w = ?exited and local = 7 and r = 0 and fadd = "(+)" and ?float64.0 = uint] T(1-4) by simp
  have 4: "Hashrate (+) uint ?S 0 = Inr 7"
    using Hashrate_local_and_remote [OF S(1,2), where r = 0 and fadd = "(+)" and ?float64.0 = uint] S(3) by simp
  from T(1,2) 1 2 3 4 show ?thesis
    by blast
qed

text \<open>
  The engines of \<^verbatim>\<open>New\<close> have both a meter and a remote sealer, so
  \<^verbatim>\<open>Hashrate\<close> returns on them, whatever the mode.
\<close>

lemma New_Hashrate_returns:
  "\<exists>v. Hashrate fadd float64 (snd (New m w cfg notify nv)) (fst (New m w cfg notify nv)) = Inr v"
  by (simp add: New_eq Hashrate_def Rate1_def fetchRate_def Let_def)

text \<open>
  The engines of the other constructors have no meter, and the engine of
  \<^verbatim>\<open>NewShared\<close> is in mode Normal without a remote sealer: on each of them, in every
  world, \<^verbatim>\<open>Hashrate\<close> ends in a nil dereference.
\<close>

lemma fakers_Hashrate_panic:
  "Hashrate fadd float64 (snd (NewFaker w)) (fst (NewFaker w)) = Inl NilDereference"
  "Hashrate fadd float64 (snd (NewFakeFailer w fail)) (fst (NewFakeFailer w fail)) =
     Inl NilDereference"
  "Hashrate fadd float64 (snd (NewFakeDelayer w delay)) (fst (NewFakeDelayer w delay)) =
     Inl NilDereference"
  "Hashrate fadd float64 (snd (NewFullFaker w)) (fst (NewFullFaker w)) = Inl NilDereference"
  "Hashrate fadd float64 (snd (NewShared w)) (fst (NewShared w)) = Inl NilDereference"
  by (simp_all add: NewFaker_def NewFakeFailer_def NewFakeDelayer_def NewFullFaker_def
      NewShared_def alloc_def Hmhash_zero_def Config_zero_def Hashrate_def Rate1_def)

text \<open>
  C5, at the inputs where the code departs from it. The engine of \<^verbatim>\<open>NewShared\<close> is
  in mode Normal and has no remote sealer, so no exit channel of its is closed;
  \<^verbatim>\<open>Hashrate\<close> on it does not return the local meter's value plus a remote aggregate
  but panics on the nil \<^verbatim>\<open>remote\<close>: the mode test does not keep it off the handle,
  and nothing checks the handle for nil as \<^verbatim>\<open>StopRemoteSealer\<close> does. The engine of
  \<^verbatim>\<open>NewFaker\<close> is in mode Fake, neither Normal nor Test; \<^verbatim>\<open>Hashrate\<close> on it
  does not return a meter's value but panics on the meter that the constructor never
  allocates. Both are built right after the package's \<^verbatim>\<open>init\<close> and are engine 1.
\<close>

theorem Hashrate_panics_without_meter_or_sealer:
  "PowMode (config (engines (snd (NewShared (init (0 :: int) world0))) ! 1)) = ModeNormal \<and>
   remote (engines (snd (NewShared (init (0 :: int) world0))) ! 1) = None \<and>
   Hashrate (+) uint (snd (NewShared (init (0 :: int) world0))) 1 = Inl NilDereference \<and>
   PowMode (config (engines (snd (NewFaker (init (0 :: int) world0))) ! 1)) = ModeFake \<and>
   hashrate (engines (snd (NewFaker (init (0 :: int) world0))) ! 1) = None \<and>
   Hashrate (+) uint (snd (NewFaker (init (0 :: int) world0))) 1 = Inl NilDereference"
  by (simp add: NewShared_init NewFaker_init Hmhash_zero_def Config_zero_def Hashrate_def
      Rate1_def)

end
